theory Spec2Isabelle
  imports Main "HOL-Library.AList" "HOL-Library.Char_ord" "HOL-Library.List_Lexorder"
begin

section \<open>Incremental sales pipeline: the model\<close>

text \<open>
  A shallow embedding of \<^verbatim>\<open>services/analytics/scripts\<close>:
  \<^verbatim>\<open>common.py\<close> (\<^verbatim>\<open>parse_report_month\<close>),
  \<^verbatim>\<open>ingest_all_months.py\<close> (state file, discovery, the raw-ingest loop, the
  post steps and the exit code) and \<^verbatim>\<open>build_curated_sales_monthly.py\<close>
  (state file, discovery of raw partitions, the curated-build loop and the exit code).

  A Python \<^verbatim>\<open>str\<close> is kept as a \<^typ>\<open>string\<close>: the list of its UTF-8 bytes. A
  character below U+0080 is one byte below 128; any other character is a lead byte
  followed by one to three continuation bytes, all of them 128 or more. Concatenation,
  the tests for an ASCII prefix or suffix, the split at \<^verbatim>\<open>/\<close>, equality and the
  order of two strings (by code points, which is the order of their UTF-8 bytes) are
  the operations on the bytes. A \<^verbatim>\<open>Path\<close> is the string \<^verbatim>\<open>str(path)\<close> with
  \<^verbatim>\<open>/\<close> as separator (a POSIX system), already resolved. Exceptions are values of
  \<open>error\<close>; a function that can raise returns \<open>error + 'a\<close>.
\<close>

subsection \<open>Exceptions\<close>

datatype error =
    ValueError string
  | AttributeError string
  | TypeError string
  | RuntimeError string
  | OSError string

text \<open>\<^verbatim>\<open>str(error)\<close>: the message the exception was raised with.\<close>

fun str_error :: "error \<Rightarrow> string" where
  "str_error (ValueError m) = m"
| "str_error (AttributeError m) = m"
| "str_error (TypeError m) = m"
| "str_error (RuntimeError m) = m"
| "str_error (OSError m) = m"

subsection \<open>Strings and paths\<close>

type_synonym path = string

text \<open>\<^verbatim>\<open>path.name\<close>: the final component of the path.\<close>

definition path_name :: "path \<Rightarrow> string" where
  "path_name p = rev (takeWhile (\<lambda>c. c \<noteq> CHR ''/'') (rev p))"

text \<open>\<^verbatim>\<open>path.parent\<close>, for a path with at least two components.\<close>

definition path_parent :: "path \<Rightarrow> path" where
  "path_parent p = rev (drop 1 (dropWhile (\<lambda>c. c \<noteq> CHR ''/'') (rev p)))"

text \<open>
  The components of a path. \<^verbatim>\<open>sorted\<close> on \<^verbatim>\<open>Path\<close> objects compares the lists of
  their components.
\<close>

fun path_parts :: "path \<Rightarrow> string list" where
  "path_parts [] = [[]]"
| "path_parts (c # cs) =
     (if c = CHR ''/'' then [] # path_parts cs
      else (case path_parts cs of
              [] \<Rightarrow> [[c]]
            | x # xs \<Rightarrow> (c # x) # xs))"

fun strip_prefix :: "string \<Rightarrow> string \<Rightarrow> string option" where
  "strip_prefix [] s = Some s"
| "strip_prefix (a # as) [] = None"
| "strip_prefix (a # as) (b # bs) = (if a = b then strip_prefix as bs else None)"

definition ends_with :: "string \<Rightarrow> string \<Rightarrow> bool" where
  "ends_with suf s = (strip_prefix (rev suf) (rev s) \<noteq> None)"

text \<open>
  The bytes of UTF-8: a byte below 128 is an ASCII character; the lead byte of another
  character tells how many bytes the character takes (\<^verbatim>\<open>110xxxxx\<close> two,
  \<^verbatim>\<open>1110xxxx\<close> three, \<^verbatim>\<open>11110xxx\<close> four); the bytes after the lead byte are
  continuation bytes \<^verbatim>\<open>10xxxxxx\<close>.
\<close>

definition is_ascii :: "char \<Rightarrow> bool" where
  "is_ascii c = (\<not> digit7 c)"

definition is_continuation :: "char \<Rightarrow> bool" where
  "is_continuation c = (digit7 c \<and> \<not> digit6 c)"

definition utf8_width :: "char \<Rightarrow> nat" where
  "utf8_width c =
     (if \<not> digit7 c then 1
      else if \<not> digit6 c then 0
      else if \<not> digit5 c then 2
      else if \<not> digit4 c then 3
      else if \<not> digit3 c then 4
      else 0)"

text \<open>\<^verbatim>\<open>str.lower()\<close> on a string of ASCII characters: \<^verbatim>\<open>A\<close> to \<^verbatim>\<open>Z\<close> change.\<close>

definition ascii_lower :: "char \<Rightarrow> char" where
  "ascii_lower c =
     (case map_of (zip ''ABCDEFGHIJKLMNOPQRSTUVWXYZ'' ''abcdefghijklmnopqrstuvwxyz'') c of
        Some l \<Rightarrow> l
      | None \<Rightarrow> c)"

subsection \<open>JSON values and dictionaries\<close>

text \<open>
  What \<^verbatim>\<open>json.loads\<close> returns and \<^verbatim>\<open>json.dumps\<close> accepts. A Python
  \<^verbatim>\<open>dict\<close> is an association list in insertion order: \<open>map_of\<close> is
  \<^verbatim>\<open>d.get(k)\<close>, \<open>AList.update\<close> is \<^verbatim>\<open>d[k] = v\<close> (the key keeps its place,
  a new key goes last). Floats do not occur in the documents the pipeline writes.
\<close>

datatype json =
    JNull
  | JBool bool
  | JInt int
  | JStr string
  | JList "json list"
  | JDict "(string \<times> json) list"

text \<open>
  \<^verbatim>\<open>v.get(k, d)\<close> on a loaded value: only a dict has \<^verbatim>\<open>get\<close>; on any other
  JSON value the call raises \<^verbatim>\<open>AttributeError\<close>.
\<close>

definition json_get :: "json \<Rightarrow> string \<Rightarrow> json \<Rightarrow> error + json" where
  "json_get v k d =
     (case v of
        JDict al \<Rightarrow> Inr (case map_of al k of None \<Rightarrow> d | Some x \<Rightarrow> x)
      | _ \<Rightarrow> Inl (AttributeError ''object has no attribute get''))"

definition dict_get :: "(string \<times> json) list \<Rightarrow> string \<Rightarrow> json \<Rightarrow> json" where
  "dict_get al k d = (case map_of al k of None \<Rightarrow> d | Some x \<Rightarrow> x)"

text \<open>
  The dict that \<^verbatim>\<open>json.loads\<close> builds from the members of a JSON object, in the
  order of the text: a name that occurs again keeps its place and takes the later value.
\<close>

definition dict_of_pairs :: "(string \<times> json) list \<Rightarrow> (string \<times> json) list" where
  "dict_of_pairs ps = fold (\<lambda>(k, v) d. AList.update k v d) ps []"

primrec json_decode :: "json \<Rightarrow> json" where
  "json_decode JNull = JNull"
| "json_decode (JBool b) = JBool b"
| "json_decode (JInt n) = JInt n"
| "json_decode (JStr s) = JStr s"
| "json_decode (JList xs) = JList (map json_decode xs)"
| "json_decode (JDict ps) = JDict (dict_of_pairs (map (map_prod id json_decode) ps))"

subsection \<open>The file system\<close>

text \<open>
  A file holds bytes, or a JSON text: \<open>Json v\<close> is the text with the members of
  \<open>v\<close> in their order (a file written with \<^verbatim>\<open>write_text(json.dumps(v))\<close>), and
  \<^verbatim>\<open>json.loads\<close> of it gives the value of the text; \<^verbatim>\<open>json.loads\<close> of other
  bytes raises. The file system is an association list from paths to files.
  Directories are implicit: a directory exists when a file lies beneath it (an empty
  directory is not represented), and \<^verbatim>\<open>mkdir(parents=True, exist_ok=True)\<close> changes
  nothing. Writing a file succeeds.
\<close>

datatype content = Raw string | Json json

record file_node =
  content :: content
  st_mtime :: int

type_synonym fs = "(path \<times> file_node) list"

fun st_size :: "content \<Rightarrow> nat" where
  "st_size (Raw b) = length b"
| "st_size (Json v) = 0"

definition is_dir :: "fs \<Rightarrow> path \<Rightarrow> bool" where
  "is_dir fs d = list_ex (\<lambda>(p, f). strip_prefix (d @ ''/'') p \<noteq> None) fs"

text \<open>\<^verbatim>\<open>Path(p).exists()\<close>; \<^verbatim>\<open>Path("")\<close> is the current directory.\<close>

definition path_exists :: "fs \<Rightarrow> path \<Rightarrow> bool" where
  "path_exists fs p = (p = [] \<or> p = ''.'' \<or> is_dir fs p \<or> map_of fs p \<noteq> None)"

text \<open>
  The entries of a directory, as \<^verbatim>\<open>glob\<close> scans them: the names directly beneath
  it, of files and of directories alike.
\<close>

definition dir_entries :: "fs \<Rightarrow> path \<Rightarrow> string list" where
  "dir_entries fs d =
     remdups
       (filter (\<lambda>n. n \<noteq> [])
          (concat
             (map (\<lambda>(p, f). case strip_prefix (d @ ''/'') p of
                               None \<Rightarrow> []
                             | Some rest \<Rightarrow> [takeWhile (\<lambda>c. c \<noteq> CHR ''/'') rest])
                fs)))"

text \<open>
  Writing a file (\<^verbatim>\<open>path.write_text(data)\<close>, \<^verbatim>\<open>pq.write_table(table, path)\<close>):
  the file system once the call has returned.
\<close>

definition write_file :: "fs \<Rightarrow> path \<Rightarrow> content \<Rightarrow> int \<Rightarrow> fs" where
  "write_file fs p c t = AList.update p \<lparr>content = c, st_mtime = t\<rparr> fs"

text \<open>
  \<^verbatim>\<open>path.write_text(data)\<close> opens the target itself in mode \<^verbatim>\<open>w\<close>, which
  truncates it, and then writes the data. The states of the file system that a reader
  can see from the call on, in order; the call returns in the last one.
\<close>

definition write_text_steps :: "fs \<Rightarrow> path \<Rightarrow> content \<Rightarrow> int \<Rightarrow> fs list" where
  "write_text_steps fs p c t = [write_file fs p (Raw []) t, write_file fs p c t]"

definition json_loads :: "content \<Rightarrow> error + json" where
  "json_loads c =
     (case c of
        Json v \<Rightarrow> Inr (json_decode v)
      | Raw b \<Rightarrow> Inl (ValueError ''Expecting value''))"

subsection \<open>What the scripts take from outside\<close>

text \<open>
  The libraries, the interpreter and the system: \<^verbatim>\<open>hashlib.sha256\<close>, the rendering of
  a time stamp, the readings of the clock during one run, the schema file and the
  workbook reader behind \<^verbatim>\<open>ingest_workbook\<close> (it gives the table as written to parquet
  and the integer totals of the report), the DuckDB query behind
  \<^verbatim>\<open>build_curated_table\<close> (the table, its rows and columns) and
  \<^verbatim>\<open>generate_kpi_report\<close>; the interpreter's Unicode database (which characters
  beyond ASCII are decimal digits, given by their UTF-8 bytes, and \<^verbatim>\<open>str.lower()\<close>
  of a string that is not all ASCII); what \<^verbatim>\<open>stat\<close> returns for a directory.
\<close>

record env =
  sha256_hexdigest :: "content \<Rightarrow> string"
  iso_of_epoch :: "int \<Rightarrow> string"
  utc_now_iso :: string
  run_id :: string
  time_now :: int
  load_schema_definition :: "error option"
  read_workbook :: "path \<Rightarrow> content \<Rightarrow> bool \<Rightarrow> error + (string \<times> (string \<times> int) list)"
  duckdb_query :: "content \<Rightarrow> error + (string \<times> int \<times> int)"
  generate_kpi_report :: "fs \<Rightarrow> path \<Rightarrow> string option \<Rightarrow> int \<Rightarrow> fs \<times> (error + string)"
  unicode_decimal :: "string \<Rightarrow> bool"
  unicode_lower :: "string \<Rightarrow> string"
  dir_st_size :: "path \<Rightarrow> nat"
  dir_st_mtime :: "path \<Rightarrow> int"

definition SCHEMA_ID :: string where
  "SCHEMA_ID = ''sales_monthly_v1''"

definition CURATED_SCHEMA_ID :: string where
  "CURATED_SCHEMA_ID = ''sales_monthly_curated_v1''"

text \<open>\<^verbatim>\<open>path.stat()\<close>: the size and the modification time of a file or a directory.\<close>

definition stat_size :: "env \<Rightarrow> fs \<Rightarrow> path \<Rightarrow> nat" where
  "stat_size e fs p =
     (case map_of fs p of Some f \<Rightarrow> st_size (content f) | None \<Rightarrow> dir_st_size e p)"

definition stat_mtime :: "env \<Rightarrow> fs \<Rightarrow> path \<Rightarrow> int" where
  "stat_mtime e fs p =
     (case map_of fs p of Some f \<Rightarrow> st_mtime f | None \<Rightarrow> dir_st_mtime e p)"

text \<open>
  \<^verbatim>\<open>file_sha256(path)\<close>: the digest of the file's bytes; \<^verbatim>\<open>path.open("rb")\<close>
  raises for a directory and for a path that does not exist.
\<close>

definition file_sha256 :: "env \<Rightarrow> fs \<Rightarrow> path \<Rightarrow> error + string" where
  "file_sha256 e fs p =
     (case map_of fs p of
        None \<Rightarrow>
          Inl (OSError ((if is_dir fs p then ''Is a directory: ''
                         else ''No such file or directory: '') @ p))
      | Some f \<Rightarrow> Inr (sha256_hexdigest e (content f)))"

text \<open>
  \<^verbatim>\<open>str.lower()\<close>: on a string of ASCII characters the letters \<^verbatim>\<open>A\<close> to
  \<^verbatim>\<open>Z\<close> change; any other string is lower-cased by the Unicode database.
\<close>

definition str_lower :: "env \<Rightarrow> string \<Rightarrow> string" where
  "str_lower e s = (if list_all is_ascii s then map ascii_lower s else unicode_lower e s)"

definition normalize_state_path_key :: "env \<Rightarrow> path \<Rightarrow> string" where
  "normalize_state_path_key e p = str_lower e p"

subsection \<open>\<^verbatim>\<open>common.parse_report_month\<close>\<close>

text \<open>
  \<^verbatim>\<open>\d\<close> in a \<^verbatim>\<open>str\<close> pattern matches one character that is a decimal digit of
  Unicode: an ASCII digit, or a character beyond ASCII that the Unicode database lists
  as a decimal digit. The bytes the digit at the head of a string takes, if there is one.
\<close>

definition match_digit :: "env \<Rightarrow> string \<Rightarrow> string option" where
  "match_digit e s =
     (case s of
        [] \<Rightarrow> None
      | c # cs \<Rightarrow>
          if c \<in> set ''0123456789'' then Some [c]
          else if is_ascii c then None
          else if 2 \<le> utf8_width c \<and> utf8_width c \<le> length s \<and>
                  list_all is_continuation (take (utf8_width c - 1) cs) \<and>
                  unicode_decimal e (take (utf8_width c) s)
          then Some (take (utf8_width c) s)
          else None)"

text \<open>
  The regular expression \<^verbatim>\<open>20\d{2}-\d{2}\<close> at the head of a string: the bytes it
  matches, if it matches.
\<close>

definition match_month_re :: "env \<Rightarrow> string \<Rightarrow> string option" where
  "match_month_re e s =
     (case strip_prefix ''20'' s of
        None \<Rightarrow> None
      | Some s1 \<Rightarrow>
     (case match_digit e s1 of
        None \<Rightarrow> None
      | Some d1 \<Rightarrow>
     (case match_digit e (drop (length d1) s1) of
        None \<Rightarrow> None
      | Some d2 \<Rightarrow>
     (case strip_prefix ''-'' (drop (length d2) (drop (length d1) s1)) of
        None \<Rightarrow> None
      | Some s2 \<Rightarrow>
     (case match_digit e s2 of
        None \<Rightarrow> None
      | Some d3 \<Rightarrow>
     (case match_digit e (drop (length d3) s2) of
        None \<Rightarrow> None
      | Some d4 \<Rightarrow> Some (''20'' @ d1 @ d2 @ ''-'' @ d3 @ d4)))))))"

text \<open>
  \<^verbatim>\<open>re.search(r"(20\d{2}-\d{2})", name)\<close>: the scan tries each start position from the
  left and returns group 1 of the first position where the pattern matches. (The
  pattern starts with an ASCII character, so it matches at no continuation byte.)
\<close>

fun re_search_month :: "env \<Rightarrow> string \<Rightarrow> string option" where
  "re_search_month e [] = None"
| "re_search_month e (c # cs) =
     (case match_month_re e (c # cs) of
        Some m \<Rightarrow> Some m
      | None \<Rightarrow> re_search_month e cs)"

definition parse_report_month :: "env \<Rightarrow> path \<Rightarrow> error + string" where
  "parse_report_month e p =
     (case re_search_month e (path_name p) of
        Some m \<Rightarrow> Inr m
      | None \<Rightarrow>
          Inl (ValueError (''Could not parse report month from file name: '' @ path_name p)))"

subsection \<open>The state file of the raw ingest (\<^verbatim>\<open>ingest_all_months.py\<close>)\<close>

text \<open>The in-memory state: the dict with the keys \<^verbatim>\<open>schema_id\<close>, \<^verbatim>\<open>updated_at\<close>, \<^verbatim>\<open>files\<close>.\<close>

record state =
  schema_id :: json
  updated_at :: json
  files :: "(string \<times> json) list"

text \<open>
  \<^verbatim>\<open>load_state\<close>: no file gives the empty state; otherwise the file is read and parsed,
  \<^verbatim>\<open>payload.get\<close> needs the payload to be a dict, and \<^verbatim>\<open>files\<close> must be a dict.
\<close>

definition load_state :: "fs \<Rightarrow> path \<Rightarrow> error + state" where
  "load_state fs state_path =
     (if \<not> path_exists fs state_path then
        Inr \<lparr>schema_id = JStr SCHEMA_ID, updated_at = JNull, files = []\<rparr>
      else
        (case map_of fs state_path of
           None \<Rightarrow> Inl (OSError (''Is a directory: '' @ state_path))
         | Some f \<Rightarrow>
             (case json_loads (content f) of
                Inl err \<Rightarrow> Inl err
              | Inr (JDict payload) \<Rightarrow>
                  (case dict_get payload ''files'' (JDict []) of
                     JDict fl \<Rightarrow>
                       Inr \<lparr>schema_id = dict_get payload ''schema_id'' (JStr SCHEMA_ID),
                            updated_at = dict_get payload ''updated_at'' JNull,
                            files = fl\<rparr>
                   | _ \<Rightarrow> Inl (ValueError (''Invalid state file format at '' @ state_path)))
              | Inr _ \<Rightarrow> Inl (AttributeError ''object has no attribute get''))))"

text \<open>
  \<^verbatim>\<open>save_state\<close> stamps \<^verbatim>\<open>state["updated_at"]\<close> and writes the whole state with one
  \<^verbatim>\<open>write_text\<close> on the state path. \<open>save_state_steps\<close> lists the file-system states
  a reader can see while it runs; \<open>save_state\<close> gives the file system and the state
  once it has returned.
\<close>

definition state_document :: "state \<Rightarrow> json" where
  "state_document s =
     JDict [(''schema_id'', schema_id s), (''updated_at'', updated_at s),
            (''files'', JDict (files s))]"

definition save_state_steps :: "env \<Rightarrow> fs \<Rightarrow> path \<Rightarrow> state \<Rightarrow> fs list" where
  "save_state_steps e fs state_path s =
     write_text_steps fs state_path
       (Json (state_document (s\<lparr>updated_at := JStr (utc_now_iso e)\<rparr>))) (time_now e)"

definition save_state :: "env \<Rightarrow> fs \<Rightarrow> path \<Rightarrow> state \<Rightarrow> fs \<times> state" where
  "save_state e fs state_path s =
     (let s' = s\<lparr>updated_at := JStr (utc_now_iso e)\<rparr>
      in (write_file fs state_path (Json (state_document s')) (time_now e), s'))"

subsection \<open>\<^verbatim>\<open>discover_input_files\<close>\<close>

record candidate =
  path :: path
  file_name :: string
  report_month :: string
  size_bytes :: nat
  modified_at_utc :: string
  modified_at_epoch :: int

text \<open>
  \<^verbatim>\<open>sorted(input_dir.glob("*.xlsx"))\<close>: the entries of the directory, files and
  directories, whose name ends in \<^verbatim>\<open>.xlsx\<close>, in the order of \<^verbatim>\<open>Path\<close> objects.
\<close>

definition glob_xlsx :: "fs \<Rightarrow> path \<Rightarrow> path list" where
  "glob_xlsx fs input_dir =
     sort_key path_parts
       (map (\<lambda>n. input_dir @ ''/'' @ n)
          (filter (ends_with ''.xlsx'') (dir_entries fs input_dir)))"

definition rejection :: "string \<Rightarrow> string \<Rightarrow> json" where
  "rejection f r = JDict [(''file'', JStr f), (''reason'', JStr r)]"

text \<open>The first loop: a name without a report month is skipped, never raised.\<close>

fun collect_candidates ::
  "env \<Rightarrow> fs \<Rightarrow> path list \<Rightarrow> candidate list \<Rightarrow> json list \<Rightarrow> candidate list \<times> json list"
where
  "collect_candidates e fs [] candidates skipped = (candidates, skipped)"
| "collect_candidates e fs (p # rest) candidates skipped =
     (case parse_report_month e p of
        Inl err \<Rightarrow>
          collect_candidates e fs rest candidates
            (skipped @ [rejection p (''invalid_report_month: '' @ str_error err)])
      | Inr m \<Rightarrow>
          collect_candidates e fs rest
            (candidates @
               [\<lparr>path = p, file_name = path_name p, report_month = m,
                 size_bytes = stat_size e fs p,
                 modified_at_utc = iso_of_epoch e (stat_mtime e fs p),
                 modified_at_epoch = stat_mtime e fs p\<rparr>])
            skipped)"

text \<open>The second loop: one file per report month, the latest modified wins.\<close>

fun by_month_loop ::
  "candidate list \<Rightarrow> (string \<times> candidate) list \<Rightarrow> json list \<Rightarrow>
     (string \<times> candidate) list \<times> json list"
where
  "by_month_loop [] by_month skipped = (by_month, skipped)"
| "by_month_loop (item # rest) by_month skipped =
     (case map_of by_month (report_month item) of
        None \<Rightarrow> by_month_loop rest (AList.update (report_month item) item by_month) skipped
      | Some existing \<Rightarrow>
          if modified_at_epoch item > modified_at_epoch existing then
            by_month_loop rest (AList.update (report_month item) item by_month)
              (skipped @
                 [rejection (path existing)
                    (''duplicate_month_replaced_by_newer_file:'' @ file_name item)])
          else
            by_month_loop rest by_month
              (skipped @
                 [rejection (path item)
                    (''duplicate_month_older_than:'' @ file_name existing)]))"

definition discover_input_files :: "env \<Rightarrow> fs \<Rightarrow> path \<Rightarrow> candidate list \<times> json list" where
  "discover_input_files e fs input_dir =
     (case collect_candidates e fs (glob_xlsx fs input_dir) [] [] of
        (candidates, skipped) \<Rightarrow>
          (case by_month_loop candidates [] skipped of
             (by_month, skipped') \<Rightarrow> (map snd (sort_key fst by_month), skipped')))"

subsection \<open>The raw-ingest loop of \<^verbatim>\<open>ingest_all_months.main\<close>\<close>

text \<open>
  \<^verbatim>\<open>ingest_workbook\<close>: the schema is loaded, the report month is parsed from the file
  name, the workbook is read. It returns the table, the report month and the totals of the
  report, or the exception raised.
\<close>

definition ingest_workbook ::
  "env \<Rightarrow> fs \<Rightarrow> path \<Rightarrow> bool \<Rightarrow> error + (string \<times> string \<times> (string \<times> int) list)"
where
  "ingest_workbook e fs input_path strict_headers =
     (case load_schema_definition e of
        Some err \<Rightarrow> Inl err
      | None \<Rightarrow>
          (case parse_report_month e input_path of
             Inl err \<Rightarrow> Inl err
           | Inr m \<Rightarrow>
               (case map_of fs input_path of
                  None \<Rightarrow> Inl (OSError (''No such file or directory: '' @ input_path))
                | Some f \<Rightarrow>
                    (case read_workbook e input_path (content f) strict_headers of
                       Inl err \<Rightarrow> Inl err
                     | Inr (table, totals) \<Rightarrow> Inr (table, m, totals)))))"

definition ingest_report_document :: "path \<Rightarrow> string \<Rightarrow> (string \<times> int) list \<Rightarrow> json" where
  "ingest_report_document input_path m totals =
     JDict [(''schema_id'', JStr SCHEMA_ID), (''input_file'', JStr input_path),
            (''report_month'', JStr m),
            (''totals'', JDict (map (\<lambda>(k, n). (k, JInt n)) totals))]"

text \<open>\<^verbatim>\<open>report["totals"].get("rows_loaded", 0)\<close>.\<close>

definition rows_loaded :: "(string \<times> int) list \<Rightarrow> json" where
  "rows_loaded totals = JInt (case map_of totals ''rows_loaded'' of None \<Rightarrow> 0 | Some n \<Rightarrow> n)"

text \<open>
  The variables of a stage's loop: the file system, the keyed records of the state
  (\<^verbatim>\<open>state["files"]\<close>, \<^verbatim>\<open>state["months"]\<close>) and the three result lists.
\<close>

record loop_vars =
  fs_now :: fs
  state_records :: "(string \<times> json) list"
  processed :: "json list"
  unchanged :: "json list"
  failed :: "json list"

definition raw_parquet_path :: "path \<Rightarrow> string \<Rightarrow> path" where
  "raw_parquet_path root m =
     root @ ''/raw/sales_monthly/v1/report_month_'' @ m @ ''/sales_monthly_v1.parquet''"

definition report_dir :: "path \<Rightarrow> path" where
  "report_dir root = root @ ''/reports/sales_monthly/v1''"

definition ingest_report_path :: "path \<Rightarrow> string \<Rightarrow> path" where
  "ingest_report_path root m = report_dir root @ ''/'' @ m @ ''_ingest.json''"

text \<open>
  One pass of the loop body (lines 180 to 240). \<open>Inl\<close> is an exception that leaves the
  loop: \<^verbatim>\<open>file_sha256\<close> and \<^verbatim>\<open>previous.get\<close> stand outside the \<^verbatim>\<open>try\<close>. Inside
  the \<^verbatim>\<open>try\<close> an exception of \<^verbatim>\<open>ingest_workbook\<close> goes to the \<^verbatim>\<open>failed\<close> list.
\<close>

definition ingest_step ::
  "env \<Rightarrow> path \<Rightarrow> bool \<Rightarrow> candidate \<Rightarrow> loop_vars \<Rightarrow> error + loop_vars"
where
  "ingest_step e root strict_headers file_info v =
     (let p = path file_info; key = normalize_state_path_key e p in
      case file_sha256 e (fs_now v) p of
        Inl err \<Rightarrow> Inl err
      | Inr checksum \<Rightarrow>
          (let previous = dict_get (state_records v) key (JDict []) in
           case json_get previous ''sha256'' JNull of
             Inl err \<Rightarrow> Inl err
           | Inr prev_sha \<Rightarrow>
               if prev_sha = JStr checksum \<and>
                  json_get previous ''report_month'' JNull = Inr (JStr (report_month file_info))
               then
                 Inr (v\<lparr>unchanged := unchanged v @
                        [JDict [(''file'', JStr p),
                                (''report_month'', JStr (report_month file_info))]]\<rparr>)
               else
                 (case ingest_workbook e (fs_now v) p strict_headers of
                    Inl err \<Rightarrow>
                      Inr (v\<lparr>failed := failed v @
                             [JDict [(''file'', JStr p),
                                     (''report_month'', JStr (report_month file_info)),
                                     (''error'', JStr (str_error err))]]\<rparr>)
                  | Inr (table, m, totals) \<Rightarrow>
                      (let parquet = raw_parquet_path root m;
                           report = ingest_report_path root m;
                           fs1 = write_file (fs_now v) parquet (Raw table) (time_now e);
                           fs2 = write_file fs1 report
                                   (Json (ingest_report_document p m totals)) (time_now e)
                       in Inr (v\<lparr>fs_now := fs2,
                                 state_records :=
                                   AList.update key
                                     (JDict [(''file_name'', JStr (path_name p)),
                                             (''absolute_path'', JStr p),
                                             (''report_month'', JStr m),
                                             (''sha256'', JStr checksum),
                                             (''size_bytes'', JInt (int (size_bytes file_info))),
                                             (''modified_at_utc'', JStr (modified_at_utc file_info)),
                                             (''ingested_at_utc'', JStr (utc_now_iso e)),
                                             (''rows_loaded'', rows_loaded totals),
                                             (''parquet_path'', JStr parquet),
                                             (''ingest_report_path'', JStr report)])
                                     (state_records v),
                                 processed := processed v @
                                   [JDict [(''file'', JStr p), (''report_month'', JStr m),
                                           (''rows_loaded'', rows_loaded totals),
                                           (''parquet_path'', JStr parquet)]]\<rparr>)))))"

fun ingest_loop ::
  "env \<Rightarrow> path \<Rightarrow> bool \<Rightarrow> candidate list \<Rightarrow> loop_vars \<Rightarrow> error option \<times> loop_vars"
where
  "ingest_loop e root strict_headers [] v = (None, v)"
| "ingest_loop e root strict_headers (file_info # rest) v =
     (case ingest_step e root strict_headers file_info v of
        Inl err \<Rightarrow> (Some err, v)
      | Inr v' \<Rightarrow> ingest_loop e root strict_headers rest v')"

subsection \<open>\<^verbatim>\<open>build_curated_sales_monthly.py\<close>: discovery and state file\<close>

definition parse_month_from_partition_dir :: "path \<Rightarrow> error + string" where
  "parse_month_from_partition_dir d =
     (case strip_prefix ''report_month_'' (path_name d) of
        None \<Rightarrow> Inl (ValueError (''Unexpected partition directory: '' @ d))
      | Some m \<Rightarrow> Inr m)"

definition raw_base :: "path \<Rightarrow> path" where
  "raw_base root = root @ ''/raw/sales_monthly/v1''"

text \<open>
  \<^verbatim>\<open>sorted(raw_base.glob("report_month_*/sales_monthly_v1.parquet"))\<close>: the entries
  named \<^verbatim>\<open>sales_monthly_v1.parquet\<close>, files and directories, of the directories
  \<^verbatim>\<open>report_month_*\<close> directly under the base, in the order of \<^verbatim>\<open>Path\<close> objects.
\<close>

definition glob_raw :: "fs \<Rightarrow> path \<Rightarrow> path list" where
  "glob_raw fs base =
     sort_key path_parts
       (map (\<lambda>d. base @ ''/'' @ d @ ''/sales_monthly_v1.parquet'')
          (filter
             (\<lambda>d. strip_prefix ''report_month_'' d \<noteq> None \<and>
                  ''sales_monthly_v1.parquet'' \<in> set (dir_entries fs (base @ ''/'' @ d)))
             (dir_entries fs base)))"

text \<open>The dict \<^verbatim>\<open>candidate\<close> of \<^verbatim>\<open>discover_raw_partitions\<close>.\<close>

record raw_candidate =
  raw_path :: path
  mtime :: int
  raw_size_bytes :: nat

fun raw_partitions_loop ::
  "env \<Rightarrow> fs \<Rightarrow> path list \<Rightarrow> (string \<times> raw_candidate) list \<Rightarrow> json list \<Rightarrow>
     error + ((string \<times> raw_candidate) list \<times> json list)"
where
  "raw_partitions_loop e fs [] selected skipped = Inr (selected, skipped)"
| "raw_partitions_loop e fs (p # rest) selected skipped =
     (case parse_month_from_partition_dir (path_parent p) of
        Inl err \<Rightarrow> Inl err
      | Inr month \<Rightarrow>
          (let cand = \<lparr>raw_path = p, mtime = stat_mtime e fs p,
                       raw_size_bytes = stat_size e fs p\<rparr>
           in case map_of selected month of
                None \<Rightarrow> raw_partitions_loop e fs rest (AList.update month cand selected) skipped
              | Some current \<Rightarrow>
                  if mtime cand > mtime current then
                    raw_partitions_loop e fs rest (AList.update month cand selected)
                      (skipped @
                         [rejection (raw_path current)
                            (''duplicate_month_replaced_by_newer_file:'' @ path_name p)])
                  else
                    raw_partitions_loop e fs rest selected
                      (skipped @
                         [rejection p
                            (''duplicate_month_older_than:'' @ path_name (raw_path current))])))"

definition discover_raw_partitions ::
  "env \<Rightarrow> fs \<Rightarrow> path \<Rightarrow> error + ((string \<times> path) list \<times> json list)"
where
  "discover_raw_partitions e fs root =
     (case raw_partitions_loop e fs (glob_raw fs (raw_base root)) [] [] of
        Inl err \<Rightarrow> Inl err
      | Inr (selected, skipped) \<Rightarrow>
          Inr (map (\<lambda>(month, meta). (month, raw_path meta)) selected, skipped))"

text \<open>The curated state: the dict with the keys \<^verbatim>\<open>schema_id\<close>, \<^verbatim>\<open>updated_at\<close>, \<^verbatim>\<open>months\<close>.\<close>

record curated_state =
  curated_schema_id :: json
  curated_updated_at :: json
  months :: "(string \<times> json) list"

definition curated_load_state :: "fs \<Rightarrow> path \<Rightarrow> error + curated_state" where
  "curated_load_state fs state_path =
     (if \<not> path_exists fs state_path then
        Inr \<lparr>curated_schema_id = JStr CURATED_SCHEMA_ID, curated_updated_at = JNull,
             months = []\<rparr>
      else
        (case map_of fs state_path of
           None \<Rightarrow> Inl (OSError (''Is a directory: '' @ state_path))
         | Some f \<Rightarrow>
             (case json_loads (content f) of
                Inl err \<Rightarrow> Inl err
              | Inr (JDict payload) \<Rightarrow>
                  (case dict_get payload ''months'' (JDict []) of
                     JDict ms \<Rightarrow>
                       Inr \<lparr>curated_schema_id =
                              dict_get payload ''schema_id'' (JStr CURATED_SCHEMA_ID),
                            curated_updated_at = dict_get payload ''updated_at'' JNull,
                            months = ms\<rparr>
                   | _ \<Rightarrow> Inl (ValueError (''Invalid curated state file: '' @ state_path)))
              | Inr _ \<Rightarrow> Inl (AttributeError ''object has no attribute get''))))"

definition curated_state_document :: "curated_state \<Rightarrow> json" where
  "curated_state_document s =
     JDict [(''schema_id'', curated_schema_id s), (''updated_at'', curated_updated_at s),
            (''months'', JDict (months s))]"

definition curated_save_state_steps :: "env \<Rightarrow> fs \<Rightarrow> path \<Rightarrow> curated_state \<Rightarrow> fs list" where
  "curated_save_state_steps e fs state_path s =
     write_text_steps fs state_path
       (Json (curated_state_document (s\<lparr>curated_updated_at := JStr (utc_now_iso e)\<rparr>)))
       (time_now e)"

definition curated_save_state ::
  "env \<Rightarrow> fs \<Rightarrow> path \<Rightarrow> curated_state \<Rightarrow> fs \<times> curated_state"
where
  "curated_save_state e fs state_path s =
     (let s' = s\<lparr>curated_updated_at := JStr (utc_now_iso e)\<rparr>
      in (write_file fs state_path (Json (curated_state_document s')) (time_now e), s'))"

subsection \<open>The curated-build loop of \<^verbatim>\<open>run_curated_build\<close>\<close>

text \<open>
  \<^verbatim>\<open>build_curated_table\<close>: DuckDB must be importable and the query must run on the raw
  parquet file; the result is the table with its numbers of rows and columns.
\<close>

definition build_curated_table :: "env \<Rightarrow> fs \<Rightarrow> path \<Rightarrow> error + (string \<times> int \<times> int)" where
  "build_curated_table e fs rp =
     (case map_of fs rp of
        None \<Rightarrow> Inl (OSError (''No files found that match the pattern: '' @ rp))
      | Some f \<Rightarrow> duckdb_query e (content f))"

definition curated_parquet_path :: "path \<Rightarrow> string \<Rightarrow> path" where
  "curated_parquet_path root month =
     root @ ''/curated/sales_monthly/v1/report_month_'' @ month @
       ''/sales_monthly_curated_v1.parquet''"

definition curated_report_path :: "path \<Rightarrow> string \<Rightarrow> path" where
  "curated_report_path root month = report_dir root @ ''/'' @ month @ ''_curated.json''"

text \<open>
  \<^verbatim>\<open>previous_matches\<close> (lines 248 to 251), with Python's short-circuit \<^verbatim>\<open>and\<close>:
  the path of the record is only looked at when the checksum is the same, and
  \<^verbatim>\<open>Path(x)\<close> raises \<^verbatim>\<open>TypeError\<close> unless \<open>x\<close> is a string.
\<close>

definition previous_matches :: "fs \<Rightarrow> json \<Rightarrow> string \<Rightarrow> error + bool" where
  "previous_matches fs previous raw_checksum =
     (case json_get previous ''raw_sha256'' JNull of
        Inl err \<Rightarrow> Inl err
      | Inr prev_sha \<Rightarrow>
          if prev_sha = JStr raw_checksum then
            (case json_get previous ''curated_parquet_path'' (JStr []) of
               Inl err \<Rightarrow> Inl err
             | Inr (JStr cp) \<Rightarrow> Inr (path_exists fs cp)
             | Inr _ \<Rightarrow> Inl (TypeError ''expected str, bytes or os.PathLike object''))
          else Inr False)"

definition curated_step ::
  "env \<Rightarrow> path \<Rightarrow> string \<times> path \<Rightarrow> loop_vars \<Rightarrow> error + loop_vars"
where
  "curated_step e root part v =
     (case part of (month, rp) \<Rightarrow>
      (case file_sha256 e (fs_now v) rp of
        Inl err \<Rightarrow> Inl err
      | Inr raw_checksum \<Rightarrow>
          (let previous = dict_get (state_records v) month (JDict []) in
           case previous_matches (fs_now v) previous raw_checksum of
             Inl err \<Rightarrow> Inl err
           | Inr True \<Rightarrow>
               (case json_get previous ''curated_parquet_path'' JNull of
                  Inl err \<Rightarrow> Inl err
                | Inr cp \<Rightarrow>
                    Inr (v\<lparr>unchanged := unchanged v @
                           [JDict [(''report_month'', JStr month),
                                   (''raw_parquet_path'', JStr rp),
                                   (''curated_parquet_path'', cp)]]\<rparr>))
           | Inr False \<Rightarrow>
               (case build_curated_table e (fs_now v) rp of
                  Inl err \<Rightarrow>
                    Inr (v\<lparr>failed := failed v @
                           [JDict [(''report_month'', JStr month),
                                   (''raw_parquet_path'', JStr rp),
                                   (''error'', JStr (str_error err))]]\<rparr>)
                | Inr (table, num_rows, num_columns) \<Rightarrow>
                    (let curated = curated_parquet_path root month;
                         fs1 = write_file (fs_now v) curated (Raw table) (time_now e);
                         month_report =
                           JDict [(''schema_id'', JStr CURATED_SCHEMA_ID),
                                  (''report_month'', JStr month),
                                  (''raw_parquet_path'', JStr rp),
                                  (''raw_sha256'', JStr raw_checksum),
                                  (''curated_parquet_path'', JStr curated),
                                  (''row_count'', JInt num_rows),
                                  (''column_count'', JInt num_columns),
                                  (''generated_at_utc'', JStr (utc_now_iso e))];
                         month_report_path = curated_report_path root month;
                         fs2 = write_file fs1 month_report_path (Json month_report) (time_now e)
                     in Inr (v\<lparr>fs_now := fs2,
                               state_records :=
                                 AList.update month
                                   (JDict [(''raw_parquet_path'', JStr rp),
                                           (''raw_sha256'', JStr raw_checksum),
                                           (''curated_parquet_path'', JStr curated),
                                           (''curated_report_path'', JStr month_report_path),
                                           (''row_count'', JInt num_rows),
                                           (''column_count'', JInt num_columns),
                                           (''updated_at_utc'', JStr (utc_now_iso e))])
                                   (state_records v),
                               processed := processed v @ [month_report]\<rparr>))))))"

fun curated_loop ::
  "env \<Rightarrow> path \<Rightarrow> (string \<times> path) list \<Rightarrow> loop_vars \<Rightarrow> error option \<times> loop_vars"
where
  "curated_loop e root [] v = (None, v)"
| "curated_loop e root (part # rest) v =
     (case curated_step e root part v of
        Inl err \<Rightarrow> (Some err, v)
      | Inr v' \<Rightarrow> curated_loop e root rest v')"

text \<open>
  What a stage hands back: the loop variables when the loop ended, the rejections of
  the discovery, the number of partitions it discovered
  (\<^verbatim>\<open>discovered_file_count\<close>, \<^verbatim>\<open>discovered_raw_month_count\<close>), and the file system
  when the function returns.
\<close>

record run_summary =
  vars :: loop_vars
  discovery_skipped :: "json list"
  discovered_count :: nat
  fs_end :: fs

definition runs_dir :: "path \<Rightarrow> path" where
  "runs_dir root = report_dir root @ ''/runs''"

definition summary_lists :: "loop_vars \<Rightarrow> json list \<Rightarrow> (string \<times> json) list" where
  "summary_lists v skipped =
     [(''processed_count'', JInt (int (length (processed v)))),
      (''unchanged_count'', JInt (int (length (unchanged v)))),
      (''failed_count'', JInt (int (length (failed v)))),
      (''discovery_skipped_count'', JInt (int (length skipped))),
      (''processed'', JList (processed v)), (''unchanged'', JList (unchanged v)),
      (''failed'', JList (failed v)), (''discovery_skipped'', JList skipped)]"

definition effective_state_path :: "path \<Rightarrow> path option \<Rightarrow> path" where
  "effective_state_path root state_path =
     (case state_path of
        Some sp \<Rightarrow> sp
      | None \<Rightarrow> root @ ''/state/sales_monthly/v1/curated_processed_months.json'')"

text \<open>
  \<^verbatim>\<open>run_curated_build\<close>. \<open>Inl\<close> is an exception that leaves the function, with the file
  system it leaves behind.
\<close>

definition run_curated_build ::
  "env \<Rightarrow> fs \<Rightarrow> path \<Rightarrow> string list option \<Rightarrow> path option \<Rightarrow> (error \<times> fs) + run_summary"
where
  "run_curated_build e fs root selected_months state_path =
     (case discover_raw_partitions e fs root of
        Inl err \<Rightarrow> Inl (err, fs)
      | Inr (discovered, skipped) \<Rightarrow>
          (let raw_mapping =
                 (case selected_months of
                    None \<Rightarrow> discovered
                  | Some ms \<Rightarrow> filter (\<lambda>(month, rp). month \<in> set ms) discovered)
           in case curated_load_state fs (effective_state_path root state_path) of
                Inl err \<Rightarrow> Inl (err, fs)
              | Inr st \<Rightarrow>
                  (case curated_loop e root (sort_key fst raw_mapping)
                          \<lparr>fs_now = fs, state_records = months st, processed = [],
                           unchanged = [], failed = []\<rparr> of
                     (Some err, v) \<Rightarrow> Inl (err, fs_now v)
                   | (None, v) \<Rightarrow>
                       (let fs1 = fst (curated_save_state e (fs_now v)
                                         (effective_state_path root state_path)
                                         (st\<lparr>months := state_records v\<rparr>));
                            doc = JDict ([(''schema_id'', JStr CURATED_SCHEMA_ID),
                                          (''ran_at_utc'', JStr (utc_now_iso e)),
                                          (''output_root'', JStr root),
                                          (''state_file'',
                                             JStr (effective_state_path root state_path)),
                                          (''discovered_raw_month_count'',
                                             JInt (int (length raw_mapping)))] @
                                         summary_lists v skipped);
                            fs2 = write_file fs1
                                    (runs_dir root @ ''/'' @ run_id e @ ''_curated_build.json'')
                                    (Json doc) (time_now e);
                            fs3 = write_file fs2
                                    (report_dir root @ ''/latest_curated_build.json'')
                                    (Json doc) (time_now e)
                        in Inr \<lparr>vars = v, discovery_skipped = skipped,
                                discovered_count = length raw_mapping,
                                fs_end = fs3\<rparr>))))"

text \<open>
  The exit status of \<^verbatim>\<open>build_curated_sales_monthly.main\<close>: 1 when an exception leaves
  \<^verbatim>\<open>run_curated_build\<close> or \<^verbatim>\<open>failed_count\<close> is positive, else 0.
\<close>

definition curated_main_exit_code :: "(error \<times> fs) + run_summary \<Rightarrow> nat" where
  "curated_main_exit_code r =
     (case r of
        Inl x \<Rightarrow> 1
      | Inr summary \<Rightarrow> if length (failed (vars summary)) > 0 then 1 else 0)"

subsection \<open>\<^verbatim>\<open>ingest_all_months.main\<close>\<close>

record args =
  arg_input_dir :: path
  arg_output_root :: path
  arg_state_file :: "path option"
  allow_header_mismatch :: bool
  build_curated :: bool
  generate_kpis :: bool
  kpi_report_month :: "string option"
  kpi_top_n :: int

text \<open>
  \<^verbatim>\<open>item["report_month"]\<close> of an entry of a stage's \<^verbatim>\<open>processed\<close>,
  \<^verbatim>\<open>unchanged\<close> or \<^verbatim>\<open>failed\<close> list.
\<close>

definition item_report_month :: "json \<Rightarrow> string" where
  "item_report_month item =
     (case json_get item ''report_month'' JNull of Inr (JStr m) \<Rightarrow> m | _ \<Rightarrow> [])"

text \<open>
  The month filter handed to the curated build (line 263):
  \<^verbatim>\<open>processed_months if processed_months else None\<close>.
\<close>

definition months_for_curated :: "string list \<Rightarrow> string list option" where
  "months_for_curated processed_months =
     (if processed_months \<noteq> [] then Some processed_months else None)"

text \<open>
  What \<^verbatim>\<open>main\<close> has at its end: the raw stage's results, the months it newly processed,
  and for each post step that was enabled what it returned or the exception caught.
\<close>

record main_result =
  ingest :: run_summary
  processed_months :: "string list"
  curated_run :: "((error \<times> fs) + run_summary) option"
  kpis_run :: "(error + string) option"

definition json_opt_error :: "error option \<Rightarrow> json" where
  "json_opt_error x = (case x of None \<Rightarrow> JNull | Some err \<Rightarrow> JStr (str_error err))"

definition post_steps_document :: "args \<Rightarrow> main_result \<Rightarrow> json" where
  "post_steps_document a r =
     JDict
       [(''build_curated'',
           JDict [(''enabled'', JBool (build_curated a)),
                  (''executed'', JBool (case curated_run r of Some (Inr x) \<Rightarrow> True | _ \<Rightarrow> False)),
                  (''processed_months'',
                     JList (case curated_run r of
                              Some (Inr x) \<Rightarrow> map JStr (processed_months r)
                            | _ \<Rightarrow> [])),
                  (''error'',
                     json_opt_error (case curated_run r of
                                       Some (Inl (err, f)) \<Rightarrow> Some err
                                     | _ \<Rightarrow> None))]),
        (''generate_kpis'',
           JDict [(''enabled'', JBool (generate_kpis a)),
                  (''executed'', JBool (case kpis_run r of Some (Inr x) \<Rightarrow> True | _ \<Rightarrow> False)),
                  (''output_path'',
                     (case kpis_run r of Some (Inr out) \<Rightarrow> JStr out | _ \<Rightarrow> JNull)),
                  (''error'',
                     json_opt_error (case kpis_run r of
                                       Some (Inl err) \<Rightarrow> Some err
                                     | _ \<Rightarrow> None))])]"

text \<open>
  The state path (lines 161 to 165): \<^verbatim>\<open>--state-file\<close> when it is given and not the
  empty string (\<^verbatim>\<open>if args.state_file\<close>), else the default under the output root.
\<close>

definition main_state_path :: "args \<Rightarrow> path" where
  "main_state_path a =
     (case arg_state_file a of
        Some sp \<Rightarrow>
          if sp \<noteq> [] then sp
          else arg_output_root a @ ''/state/sales_monthly/v1/processed_files.json''
      | None \<Rightarrow> arg_output_root a @ ''/state/sales_monthly/v1/processed_files.json'')"

text \<open>
  The raw stage of \<^verbatim>\<open>main\<close> (lines 156 to 242): the input directory must exist, the
  state is loaded, the files are discovered, the loop runs and the state is saved.
\<close>

definition ingest_stage :: "env \<Rightarrow> fs \<Rightarrow> args \<Rightarrow> (error \<times> fs) + run_summary" where
  "ingest_stage e fs a =
     (if \<not> is_dir fs (arg_input_dir a) then
        Inl (OSError (''Input directory not found: '' @ arg_input_dir a), fs)
      else
        (case load_state fs (main_state_path a) of
           Inl err \<Rightarrow> Inl (err, fs)
         | Inr st \<Rightarrow>
             (case discover_input_files e fs (arg_input_dir a) of
                (files_to_consider, discovery_skips) \<Rightarrow>
                  (case ingest_loop e (arg_output_root a) (\<not> allow_header_mismatch a)
                          files_to_consider
                          \<lparr>fs_now = fs, state_records = files st, processed = [],
                           unchanged = [], failed = []\<rparr> of
                     (Some err, v) \<Rightarrow> Inl (err, fs_now v)
                   | (None, v) \<Rightarrow>
                       Inr \<lparr>vars = v, discovery_skipped = discovery_skips,
                            discovered_count = length files_to_consider,
                            fs_end = fst (save_state e (fs_now v) (main_state_path a)
                                            (st\<lparr>files := state_records v\<rparr>))\<rparr>))))"

text \<open>The rest of \<^verbatim>\<open>main\<close> (lines 244 to 331): the post steps and the run report.\<close>

definition main :: "env \<Rightarrow> fs \<Rightarrow> args \<Rightarrow> (error \<times> fs) + main_result" where
  "main e fs a =
     (case ingest_stage e fs a of
        Inl x \<Rightarrow> Inl x
      | Inr s \<Rightarrow>
          (let root = arg_output_root a;
               pm = sort (remdups (map item_report_month (processed (vars s))));
               cr = (if build_curated a then
                       Some (run_curated_build e (fs_end s) root (months_for_curated pm) None)
                     else None);
               fs2 = (case cr of
                        None \<Rightarrow> fs_end s
                      | Some (Inl (err, f)) \<Rightarrow> f
                      | Some (Inr x) \<Rightarrow> fs_end x);
               kr = (if generate_kpis a then
                       Some (generate_kpi_report e fs2 root
                               (kpi_report_month a) (max 1 (kpi_top_n a)))
                     else None);
               fs3 = (case kr of None \<Rightarrow> fs2 | Some (f, x) \<Rightarrow> f);
               r = \<lparr>ingest = s, processed_months = pm, curated_run = cr,
                    kpis_run = map_option snd kr\<rparr>;
               doc = JDict ([(''schema_id'', JStr SCHEMA_ID),
                             (''ran_at_utc'', JStr (utc_now_iso e)),
                             (''input_dir'', JStr (arg_input_dir a)),
                             (''output_root'', JStr root),
                             (''state_file'', JStr (main_state_path a)),
                             (''discovered_file_count'',
                                JInt (int (discovered_count s)))] @
                            summary_lists (vars s) (discovery_skipped s) @
                            [(''post_steps'', post_steps_document a r)]);
               fs4 = write_file fs3
                       (runs_dir root @ ''/'' @ run_id e @ ''_folder_ingest.json'')
                       (Json doc) (time_now e);
               fs5 = write_file fs4
                       (report_dir root @ ''/latest_folder_ingest.json'')
                       (Json doc) (time_now e)
           in Inr (r\<lparr>ingest := s\<lparr>fs_end := fs5\<rparr>\<rparr>)))"

text \<open>
  The exit status of the process (lines 354 to 359): \<^verbatim>\<open>SystemExit(1)\<close> when the raw
  stage's \<^verbatim>\<open>failed\<close> list is not empty or a post step left an \<^verbatim>\<open>error\<close>; an exception
  that leaves \<^verbatim>\<open>main\<close> ends the process with status 1 too.
\<close>

definition post_failed :: "main_result \<Rightarrow> bool" where
  "post_failed r =
     ((case curated_run r of Some (Inl x) \<Rightarrow> True | _ \<Rightarrow> False) \<or>
      (case kpis_run r of Some (Inl x) \<Rightarrow> True | _ \<Rightarrow> False))"

definition main_exit_code :: "(error \<times> fs) + main_result \<Rightarrow> nat" where
  "main_exit_code r =
     (case r of
        Inl x \<Rightarrow> 1
      | Inr m \<Rightarrow> if length (failed (vars (ingest m))) > 0 \<or> post_failed m then 1 else 0)"

text \<open>
  The months in a stage's three result lists: the partitions its loop went through.
\<close>

definition outcome_months :: "loop_vars \<Rightarrow> string list" where
  "outcome_months v = map item_report_month (processed v @ unchanged v @ failed v)"

subsection \<open>The month key in the words of the specification\<close>

text \<open>
  The claim's words for the partition key, to compare the matcher with: a digit is one
  character that is a decimal digit (an ASCII digit, or the UTF-8 bytes of one character
  beyond ASCII that the Unicode database lists as a decimal digit); a month key is
  \<^verbatim>\<open>20\<close>, two digits, a hyphen and two digits.
\<close>

definition spec_decimal_digit :: "env \<Rightarrow> string \<Rightarrow> bool" where
  "spec_decimal_digit e d =
     ((\<exists>c. d = [c] \<and> c \<in> set ''0123456789'') \<or>
      (case d of
         [] \<Rightarrow> False
       | c # cs \<Rightarrow>
           \<not> is_ascii c \<and> length d = utf8_width c \<and> list_all is_continuation cs \<and>
           unicode_decimal e d))"

definition spec_month_key :: "env \<Rightarrow> string \<Rightarrow> bool" where
  "spec_month_key e m =
     (\<exists>d1 d2 d3 d4.
        m = ''20'' @ d1 @ d2 @ ''-'' @ d3 @ d4 \<and>
        spec_decimal_digit e d1 \<and> spec_decimal_digit e d2 \<and>
        spec_decimal_digit e d3 \<and> spec_decimal_digit e d4)"

subsection \<open>Concrete runs\<close>

text \<open>
  An environment and small file systems on which the scripts are run in the examples
  below. The digest of the environment is the bytes themselves, the workbook reader
  rejects the workbook \<^verbatim>\<open>bad\<close>, and the query returns the bytes it is given. Of the
  decimal digits beyond ASCII its Unicode database has the fullwidth digits U+FF10 to
  U+FF19 (the bytes \<^verbatim>\<open>EF BC 90\<close> to \<^verbatim>\<open>EF BC 99\<close>).
\<close>

definition fullwidth_digits :: "string list" where
  "fullwidth_digits =
     map (\<lambda>b. [CHR 0xEF, CHR 0xBC, b])
       [CHR 0x90, CHR 0x91, CHR 0x92, CHR 0x93, CHR 0x94,
        CHR 0x95, CHR 0x96, CHR 0x97, CHR 0x98, CHR 0x99]"

definition demo_env :: env where
  "demo_env =
     \<lparr>sha256_hexdigest = (\<lambda>c. case c of Raw b \<Rightarrow> b | Json v \<Rightarrow> ''json''),
      iso_of_epoch = (\<lambda>t. ''1970-01-01T00:00:00+00:00''),
      utc_now_iso = ''2024-03-01T00:00:00+00:00'',
      run_id = ''20240301T000000Z'',
      time_now = 5,
      load_schema_definition = None,
      read_workbook =
        (\<lambda>p c strict.
           case c of
             Raw b \<Rightarrow>
               if b = ''bad'' then Inl (ValueError ''Header mismatch'')
               else Inr (b, [(''rows_loaded'', 1)])
           | Json v \<Rightarrow> Inl (ValueError ''not a workbook'')),
      duckdb_query =
        (\<lambda>c. case c of
               Raw b \<Rightarrow> Inr (b, 1, 26)
             | Json v \<Rightarrow> Inl (RuntimeError ''not a parquet file'')),
      generate_kpi_report = (\<lambda>fs root m n. (fs, Inr [])),
      unicode_decimal = (\<lambda>s. s \<in> set fullwidth_digits),
      unicode_lower = (\<lambda>s. s),
      dir_st_size = (\<lambda>p. 4096),
      dir_st_mtime = (\<lambda>p. 0)\<rparr>"

text \<open>The same environment on a machine without DuckDB.\<close>

definition demo_env_no_duckdb :: env where
  "demo_env_no_duckdb =
     demo_env\<lparr>duckdb_query := (\<lambda>c. Inl (RuntimeError ''duckdb is not installed''))\<rparr>"

definition raw_only_args :: args where
  "raw_only_args =
     \<lparr>arg_input_dir = ''in'', arg_output_root = ''out'', arg_state_file = None,
      allow_header_mismatch = False, build_curated = False, generate_kpis = False,
      kpi_report_month = None, kpi_top_n = 10\<rparr>"

definition pipeline_args :: args where
  "pipeline_args = raw_only_args\<lparr>build_curated := True\<rparr>"

text \<open>The file system a run of \<^verbatim>\<open>main\<close> leaves behind.\<close>

definition fs_after :: "(error \<times> fs) + main_result \<Rightarrow> fs" where
  "fs_after r = (case r of Inl (err, f) \<Rightarrow> f | Inr m \<Rightarrow> fs_end (ingest m))"

definition fs_jan :: fs where
  "fs_jan = [(''in/s_2024-01.xlsx'', \<lparr>content = Raw ''a'', st_mtime = 1\<rparr>)]"

text \<open>The January workbook ingested once, and its raw parquet file deleted afterwards.\<close>

definition fs_jan_output_deleted :: fs where
  "fs_jan_output_deleted =
     AList.delete ''out/raw/sales_monthly/v1/report_month_2024-01/sales_monthly_v1.parquet''
       (fs_after (main demo_env fs_jan raw_only_args))"

text \<open>An empty state saved once at \<^verbatim>\<open>out/state.json\<close>.\<close>

definition empty_state :: state where
  "empty_state = \<lparr>schema_id = JStr SCHEMA_ID, updated_at = JNull, files = []\<rparr>"

definition fs_saved_once :: fs where
  "fs_saved_once = fst (save_state demo_env [] ''out/state.json'' empty_state)"

text \<open>
  An input directory with three workbooks for March 2024 (two modified at the same
  time, one later) and one workbook whose name carries no month.
\<close>

definition fs_march :: fs where
  "fs_march =
     [(''in/notes.xlsx'', \<lparr>content = Raw ''n'', st_mtime = 9\<rparr>),
      (''in/c_2024-03.xlsx'', \<lparr>content = Raw ''c'', st_mtime = 3\<rparr>),
      (''in/b_2024-03.xlsx'', \<lparr>content = Raw ''b'', st_mtime = 2\<rparr>),
      (''in/a_2024-03.xlsx'', \<lparr>content = Raw ''a'', st_mtime = 2\<rparr>)]"

definition march_candidate :: "string \<Rightarrow> int \<Rightarrow> candidate" where
  "march_candidate n t =
     \<lparr>path = ''in/'' @ n, file_name = n, report_month = ''2024-03'', size_bytes = 1,
      modified_at_utc = ''1970-01-01T00:00:00+00:00'', modified_at_epoch = t\<rparr>"

text \<open>The file system after one run of the raw ingest alone on the January workbook.\<close>

definition fs_jan_ingested :: fs where
  "fs_jan_ingested = fs_after (main demo_env fs_jan raw_only_args)"

text \<open>The file system after one chained run on the January workbook.\<close>

definition fs_jan_pipeline :: fs where
  "fs_jan_pipeline = fs_after (main demo_env fs_jan pipeline_args)"

text \<open>
  The January workbook ingested once without the curated build, and a February
  workbook delivered afterwards.
\<close>

definition fs_jan_feb :: fs where
  "fs_jan_feb =
     write_file (fs_after (main demo_env fs_jan raw_only_args))
       ''in/s_2024-02.xlsx'' (Raw ''b'') 2"

text \<open>
  The January workbook ingested once, then delivered again under another name with
  other bytes and a later time stamp.
\<close>

definition fs_jan_redelivered :: fs where
  "fs_jan_redelivered =
     write_file (fs_after (main demo_env fs_jan raw_only_args))
       ''in/t_2024-01.xlsx'' (Raw ''b'') 7"

text \<open>
  The January workbook ingested once, then delivered again with other bytes under a
  name that differs from the first in the case of a letter only.
\<close>

definition fs_jan_upper :: fs where
  "fs_jan_upper =
     write_file (fs_after (main demo_env fs_jan raw_only_args))
       ''in/S_2024-01.xlsx'' (Raw ''b'') 7"

text \<open>The January workbook ingested once, then overwritten with other bytes.\<close>

definition fs_jan_modified :: fs where
  "fs_jan_modified =
     write_file (fs_after (main demo_env fs_jan raw_only_args))
       ''in/s_2024-01.xlsx'' (Raw ''b'') 7"

text \<open>
  An input directory that holds, beside the January workbook, a directory whose name
  ends in \<^verbatim>\<open>.xlsx\<close>.
\<close>

definition fs_with_directory :: fs where
  "fs_with_directory =
     [(''in/s_2024-01.xlsx'', \<lparr>content = Raw ''a'', st_mtime = 1\<rparr>),
      (''in/old_2023-12.xlsx/readme.txt'', \<lparr>content = Raw ''r'', st_mtime = 1\<rparr>)]"

text \<open>
  A workbook whose name carries a month written with fullwidth digits before a month
  written with ASCII digits, and the first of the two keys.
\<close>

definition fullwidth_name :: string where
  "fullwidth_name =
     ''s_20'' @ [CHR 0xEF, CHR 0xBC, CHR 0x92, CHR 0xEF, CHR 0xBC, CHR 0x94] @ ''-'' @
     [CHR 0xEF, CHR 0xBC, CHR 0x90, CHR 0xEF, CHR 0xBC, CHR 0x91] @ ''_2024-02.xlsx''"

definition fullwidth_key :: string where
  "fullwidth_key =
     ''20'' @ [CHR 0xEF, CHR 0xBC, CHR 0x92, CHR 0xEF, CHR 0xBC, CHR 0x94] @ ''-'' @
     [CHR 0xEF, CHR 0xBC, CHR 0x90, CHR 0xEF, CHR 0xBC, CHR 0x91]"

text \<open>
  The candidate of the overwritten January workbook and the loop variables before the
  pass that ingests it again: the state as loaded from the state file.
\<close>

definition jan_modified_candidate :: candidate where
  "jan_modified_candidate =
     \<lparr>path = ''in/s_2024-01.xlsx'', file_name = ''s_2024-01.xlsx'', report_month = ''2024-01'',
      size_bytes = 1, modified_at_utc = ''1970-01-01T00:00:00+00:00'', modified_at_epoch = 7\<rparr>"

definition jan_modified_vars :: loop_vars where
  "jan_modified_vars =
     \<lparr>fs_now = fs_jan_modified,
      state_records =
        (case load_state fs_jan_modified (main_state_path raw_only_args) of
           Inl err \<Rightarrow> []
         | Inr st \<Rightarrow> files st),
      processed = [], unchanged = [], failed = []\<rparr>"

text \<open>The candidate of the January workbook and the loop variables before the first pass.\<close>

definition jan_candidate :: candidate where
  "jan_candidate =
     \<lparr>path = ''in/s_2024-01.xlsx'', file_name = ''s_2024-01.xlsx'', report_month = ''2024-01'',
      size_bytes = 1, modified_at_utc = ''1970-01-01T00:00:00+00:00'', modified_at_epoch = 1\<rparr>"

definition jan_vars :: loop_vars where
  "jan_vars = \<lparr>fs_now = fs_jan, state_records = [], processed = [], unchanged = [], failed = []\<rparr>"

section \<open>Properties\<close>

subsection \<open>Report month parsing\<close>

lemma strip_prefix_Some_iff: "strip_prefix a s = Some r \<longleftrightarrow> s = a @ r"
  by (induction a s rule: strip_prefix.induct) auto

lemma ascii_digit_is_ascii: "c \<in> set ''0123456789'' \<Longrightarrow> is_ascii c"
  by (auto simp: is_ascii_def)

lemma utf8_width_non_ascii: "\<not> is_ascii c \<Longrightarrow> utf8_width c \<noteq> 1"
  by (simp add: is_ascii_def utf8_width_def)

lemma match_digit_iff:
  "match_digit e s = Some d \<longleftrightarrow> spec_decimal_digit e d \<and> (\<exists>rest. s = d @ rest)"
proof (cases s)
  case Nil
  then show ?thesis
    by (auto simp: match_digit_def spec_decimal_digit_def split: list.splits)
next
  case (Cons c cs)
  show ?thesis
  proof (cases "c \<in> set ''0123456789''")
    case True
    then have asc: "is_ascii c" by (rule ascii_digit_is_ascii)
    from True Cons have m: "match_digit e s = Some [c]"
      by (simp add: match_digit_def)
    have "spec_decimal_digit e d \<and> (\<exists>rest. s = d @ rest) \<longleftrightarrow> d = [c]"
    proof
      assume a: "spec_decimal_digit e d \<and> (\<exists>rest. s = d @ rest)"
      then obtain rest where r: "c # cs = d @ rest" using Cons by auto
      from a have "(\<exists>c'. d = [c'] \<and> c' \<in> set ''0123456789'') \<or>
          (\<exists>c' cs'. d = c' # cs' \<and> \<not> is_ascii c')"
        unfolding spec_decimal_digit_def by (cases d) auto
      then show "d = [c]"
      proof
        assume "\<exists>c'. d = [c'] \<and> c' \<in> set ''0123456789''"
        with r show ?thesis by auto
      next
        assume "\<exists>c' cs'. d = c' # cs' \<and> \<not> is_ascii c'"
        with r asc show ?thesis by auto
      qed
    next
      assume "d = [c]"
      with True Cons show "spec_decimal_digit e d \<and> (\<exists>rest. s = d @ rest)"
        unfolding spec_decimal_digit_def by auto
    qed
    with m show ?thesis by auto
  next
    case nd: False
    show ?thesis
    proof (cases "is_ascii c")
      case True
      with nd Cons have m: "match_digit e s = None" by (simp add: match_digit_def)
      have "\<not> (spec_decimal_digit e d \<and> (\<exists>rest. s = d @ rest))"
      proof
        assume a: "spec_decimal_digit e d \<and> (\<exists>rest. s = d @ rest)"
        then obtain rest where r: "c # cs = d @ rest" using Cons by auto
        from a have "(\<exists>c'. d = [c'] \<and> c' \<in> set ''0123456789'') \<or>
            (\<exists>c' cs'. d = c' # cs' \<and> \<not> is_ascii c')"
          unfolding spec_decimal_digit_def by (cases d) auto
        with r nd True show False by auto
      qed
      with m show ?thesis by simp
    next
      case False
      define w where "w = utf8_width c"
      have m: "match_digit e s =
          (if 2 \<le> w \<and> w \<le> length s \<and> list_all is_continuation (take (w - 1) cs) \<and>
              unicode_decimal e (take w s)
           then Some (take w s) else None)"
        using nd False Cons by (simp add: match_digit_def w_def)
      have w1: "w \<noteq> 1" unfolding w_def using False by (rule utf8_width_non_ascii)
      show ?thesis
      proof
        assume "match_digit e s = Some d"
        with m have c: "2 \<le> w" "w \<le> length s" "list_all is_continuation (take (w - 1) cs)"
          "unicode_decimal e (take w s)" and d: "d = take w s"
          by (auto split: if_splits)
        from c(1) Cons have dd: "d = c # take (w - 1) cs"
          unfolding d by (cases w) simp_all
        have len: "length d = w" unfolding d using c(2) by simp
        have "spec_decimal_digit e d"
          unfolding spec_decimal_digit_def
          using dd False len c(3,4) d w_def by simp
        moreover have "s = d @ drop w s" unfolding d by simp
        ultimately show "spec_decimal_digit e d \<and> (\<exists>rest. s = d @ rest)" by blast
      next
        assume a: "spec_decimal_digit e d \<and> (\<exists>rest. s = d @ rest)"
        then obtain rest where r: "c # cs = d @ rest" using Cons by auto
        from a have "(\<exists>c'. d = [c'] \<and> c' \<in> set ''0123456789'') \<or>
            (\<exists>c' cs'. d = c' # cs' \<and> \<not> is_ascii c' \<and> length d = utf8_width c' \<and>
                list_all is_continuation cs' \<and> unicode_decimal e d)"
          unfolding spec_decimal_digit_def by (cases d) auto
        then obtain cs' where d: "d = c # cs'" and len: "length d = w"
          and cont: "list_all is_continuation cs'" and ud: "unicode_decimal e d"
          using r nd unfolding w_def by auto
        from len d w1 have w2: "2 \<le> w" by (cases cs') auto
        from r d have cs: "cs = cs' @ rest" by simp
        from len d have l': "length cs' = w - 1" by auto
        have t1: "take (w - 1) cs = cs'" unfolding cs using l' by simp
        have t2: "take w s = d" using Cons r len by simp
        have "w \<le> length s" using Cons r len by simp
        with w2 t1 t2 cont ud show "match_digit e s = Some d"
          unfolding m by simp
      qed
    qed
  qed
qed

lemma spec_decimal_digit_no_slash:
  assumes "spec_decimal_digit e d" shows "CHR ''/'' \<notin> set d"
proof -
  from assms have "(\<exists>c'. d = [c'] \<and> c' \<in> set ''0123456789'') \<or>
      (\<exists>c' cs'. d = c' # cs' \<and> \<not> is_ascii c' \<and> list_all is_continuation cs')"
    unfolding spec_decimal_digit_def by (cases d) auto
  then show ?thesis
  proof
    assume "\<exists>c'. d = [c'] \<and> c' \<in> set ''0123456789''"
    then show ?thesis by auto
  next
    assume "\<exists>c' cs'. d = c' # cs' \<and> \<not> is_ascii c' \<and> list_all is_continuation cs'"
    then obtain c' cs' where d: "d = c' # cs'" and a: "\<not> is_ascii c'"
      and c: "list_all is_continuation cs'" by blast
    have "c' \<noteq> CHR ''/''" using a by (auto simp: is_ascii_def)
    moreover have "\<forall>b \<in> set cs'. b \<noteq> CHR ''/''"
      using c by (auto simp: list_all_iff is_continuation_def)
    ultimately show ?thesis unfolding d by auto
  qed
qed

lemma spec_month_key_no_slash:
  "spec_month_key e m \<Longrightarrow> CHR ''/'' \<notin> set m"
  unfolding spec_month_key_def
  by (auto dest: spec_decimal_digit_no_slash)

lemma match_month_re_iff:
  "match_month_re e s = Some m \<longleftrightarrow> spec_month_key e m \<and> (\<exists>rest. s = m @ rest)"
proof
  assume "match_month_re e s = Some m"
  then obtain s1 d1 d2 s2 d3 d4 where
    a: "strip_prefix ''20'' s = Some s1" and
    b: "match_digit e s1 = Some d1" and
    c: "match_digit e (drop (length d1) s1) = Some d2" and
    d: "strip_prefix ''-'' (drop (length d2) (drop (length d1) s1)) = Some s2" and
    f: "match_digit e s2 = Some d3" and
    g: "match_digit e (drop (length d3) s2) = Some d4" and
    m: "m = ''20'' @ d1 @ d2 @ ''-'' @ d3 @ d4"
    unfolding match_month_re_def by (auto split: option.splits)
  from a have s: "s = ''20'' @ s1" by (simp only: strip_prefix_Some_iff)
  from b obtain r1 where r1: "s1 = d1 @ r1" and dd1: "spec_decimal_digit e d1"
    unfolding match_digit_iff by blast
  from c r1 obtain r2 where r2: "r1 = d2 @ r2" and dd2: "spec_decimal_digit e d2"
    unfolding match_digit_iff by auto
  from d r1 r2 have s2: "r2 = ''-'' @ s2" by (simp add: strip_prefix_Some_iff)
  from f obtain r3 where r3: "s2 = d3 @ r3" and dd3: "spec_decimal_digit e d3"
    unfolding match_digit_iff by blast
  from g r3 obtain r4 where r4: "r3 = d4 @ r4" and dd4: "spec_decimal_digit e d4"
    unfolding match_digit_iff by auto
  have "s = m @ r4" unfolding m s r1 r2 s2 r3 r4 by simp
  moreover have "spec_month_key e m"
    unfolding spec_month_key_def using m dd1 dd2 dd3 dd4 by blast
  ultimately show "spec_month_key e m \<and> (\<exists>rest. s = m @ rest)" by blast
next
  assume "spec_month_key e m \<and> (\<exists>rest. s = m @ rest)"
  then obtain d1 d2 d3 d4 rest where
    m: "m = ''20'' @ d1 @ d2 @ ''-'' @ d3 @ d4" and
    dd: "spec_decimal_digit e d1" "spec_decimal_digit e d2"
        "spec_decimal_digit e d3" "spec_decimal_digit e d4" and
    s: "s = m @ rest"
    unfolding spec_month_key_def by blast
  define s1 where "s1 = d1 @ d2 @ ''-'' @ d3 @ d4 @ rest"
  define s2 where "s2 = d3 @ d4 @ rest"
  have a: "strip_prefix ''20'' s = Some s1"
    unfolding strip_prefix_Some_iff s m s1_def by simp
  have b: "match_digit e s1 = Some d1"
    unfolding match_digit_iff s1_def using dd(1) by blast
  have dr1: "drop (length d1) s1 = d2 @ ''-'' @ s2" unfolding s1_def s2_def by simp
  have c: "match_digit e (drop (length d1) s1) = Some d2"
    unfolding match_digit_iff dr1 using dd(2) by blast
  have dr2: "drop (length d2) (drop (length d1) s1) = ''-'' @ s2" unfolding dr1 by simp
  have d: "strip_prefix ''-'' (drop (length d2) (drop (length d1) s1)) = Some s2"
    unfolding strip_prefix_Some_iff dr2 by simp
  have f: "match_digit e s2 = Some d3"
    unfolding match_digit_iff s2_def using dd(3) by blast
  have dr3: "drop (length d3) s2 = d4 @ rest" unfolding s2_def by simp
  have g: "match_digit e (drop (length d3) s2) = Some d4"
    unfolding match_digit_iff dr3 using dd(4) by blast
  show "match_month_re e s = Some m"
    by (simp only: match_month_re_def a b c d f g m option.case)
qed

lemma re_search_month_None_iff:
  "re_search_month e s = None \<longleftrightarrow> (\<forall>i<length s. match_month_re e (drop i s) = None)"
proof (induction s)
  case Nil
  then show ?case by simp
next
  case (Cons c cs)
  have "(\<forall>i<length (c # cs). match_month_re e (drop i (c # cs)) = None) \<longleftrightarrow>
        match_month_re e (c # cs) = None \<and>
        (\<forall>i<length cs. match_month_re e (drop i cs) = None)"
    by (auto simp: less_Suc_eq_0_disj)
  with Cons show ?case by (auto split: option.splits)
qed

lemma re_search_month_Some_iff:
  "re_search_month e s = Some m \<longleftrightarrow>
     (\<exists>pre post. s = pre @ m @ post \<and> match_month_re e (m @ post) = Some m \<and>
        (\<forall>i<length pre. match_month_re e (drop i s) = None))"
proof (induction s)
  case Nil
  then show ?case by (auto simp: match_month_re_def)
next
  case (Cons c cs)
  show ?case
  proof (cases "match_month_re e (c # cs)")
    case (Some m0)
    then obtain rest where r: "c # cs = m0 @ rest"
      unfolding match_month_re_iff by blast
    have "(\<exists>pre post. c # cs = pre @ m @ post \<and> match_month_re e (m @ post) = Some m \<and>
            (\<forall>i<length pre. match_month_re e (drop i (c # cs)) = None))
          \<longleftrightarrow> m = m0"
    proof
      assume "\<exists>pre post. c # cs = pre @ m @ post \<and> match_month_re e (m @ post) = Some m \<and>
                (\<forall>i<length pre. match_month_re e (drop i (c # cs)) = None)"
      then obtain pre post where eq: "c # cs = pre @ m @ post"
        and mm: "match_month_re e (m @ post) = Some m"
        and first: "\<forall>i<length pre. match_month_re e (drop i (c # cs)) = None"
        by blast
      have "pre = []"
      proof (rule ccontr)
        assume "pre \<noteq> []"
        then have "0 < length pre" by simp
        with first have "match_month_re e (drop 0 (c # cs)) = None" by blast
        with Some show False by simp
      qed
      with eq mm Some show "m = m0" by simp
    next
      assume m: "m = m0"
      have "c # cs = [] @ m @ rest" using m r by simp
      moreover have "match_month_re e (m @ rest) = Some m" using Some m r by simp
      moreover have "\<forall>i<length ([] :: string). match_month_re e (drop i (c # cs)) = None"
        by simp
      ultimately show "\<exists>pre post. c # cs = pre @ m @ post \<and>
                match_month_re e (m @ post) = Some m \<and>
                (\<forall>i<length pre. match_month_re e (drop i (c # cs)) = None)"
        by blast
    qed
    with Some show ?thesis by auto
  next
    case None
    have "(\<exists>pre post. c # cs = pre @ m @ post \<and> match_month_re e (m @ post) = Some m \<and>
            (\<forall>i<length pre. match_month_re e (drop i (c # cs)) = None))
          \<longleftrightarrow> (\<exists>pre post. cs = pre @ m @ post \<and> match_month_re e (m @ post) = Some m \<and>
            (\<forall>i<length pre. match_month_re e (drop i cs) = None))"
      (is "?L \<longleftrightarrow> ?R")
    proof
      assume ?L
      then obtain pre post where eq: "c # cs = pre @ m @ post"
        and mm: "match_month_re e (m @ post) = Some m"
        and first: "\<forall>i<length pre. match_month_re e (drop i (c # cs)) = None"
        by blast
      have "pre \<noteq> []"
      proof
        assume "pre = []"
        with eq mm have "match_month_re e (c # cs) = Some m" by simp
        with None show False by simp
      qed
      then obtain pre' where pre: "pre = c # pre'" using eq by (cases pre) auto
      have "cs = pre' @ m @ post" using eq pre by simp
      moreover have "\<forall>i<length pre'. match_month_re e (drop i cs) = None"
      proof (intro allI impI)
        fix i assume "i < length pre'"
        then have "Suc i < length pre" using pre by simp
        with first have "match_month_re e (drop (Suc i) (c # cs)) = None" by blast
        then show "match_month_re e (drop i cs) = None" by simp
      qed
      ultimately show ?R using mm by blast
    next
      assume ?R
      then obtain pre post where eq: "cs = pre @ m @ post"
        and mm: "match_month_re e (m @ post) = Some m"
        and first: "\<forall>i<length pre. match_month_re e (drop i cs) = None"
        by blast
      have "c # cs = (c # pre) @ m @ post" using eq by simp
      moreover have "\<forall>i<length (c # pre). match_month_re e (drop i (c # cs)) = None"
      proof (intro allI impI)
        fix i assume i: "i < length (c # pre)"
        show "match_month_re e (drop i (c # cs)) = None"
        proof (cases i)
          case 0
          with None show ?thesis by simp
        next
          case (Suc j)
          with i have "j < length pre" by simp
          with first Suc show ?thesis by simp
        qed
      qed
      ultimately show ?L using mm by blast
    qed
    with None Cons show ?thesis by simp
  qed
qed

lemma parse_report_month_Inr_iff:
  "parse_report_month e p = Inr m \<longleftrightarrow> re_search_month e (path_name p) = Some m"
  by (simp add: parse_report_month_def split: option.splits)

lemma parse_report_month_Inl_iff:
  "parse_report_month e p = Inl err \<longleftrightarrow>
     re_search_month e (path_name p) = None \<and>
     err = ValueError (''Could not parse report month from file name: '' @ path_name p)"
  by (auto simp add: parse_report_month_def split: option.splits)

lemma first_month_key:
  "(\<exists>pre post. s = pre @ m @ post \<and> match_month_re e (m @ post) = Some m \<and>
        (\<forall>i<length pre. match_month_re e (drop i s) = None)) \<longleftrightarrow>
   (\<exists>pre post. s = pre @ m @ post \<and> spec_month_key e m \<and>
      (\<forall>pre' m' post'. s = pre' @ m' @ post' \<and> spec_month_key e m' \<longrightarrow>
          length pre \<le> length pre'))"
  (is "?L \<longleftrightarrow> ?R")
proof
  assume ?L
  then obtain pre post where eq: "s = pre @ m @ post"
    and mm: "match_month_re e (m @ post) = Some m"
    and first: "\<forall>i<length pre. match_month_re e (drop i s) = None"
    by blast
  from mm have key: "spec_month_key e m" unfolding match_month_re_iff by blast
  have "\<forall>pre' m' post'. s = pre' @ m' @ post' \<and> spec_month_key e m' \<longrightarrow>
          length pre \<le> length pre'"
  proof (intro allI impI)
    fix pre' m' post'
    assume a: "s = pre' @ m' @ post' \<and> spec_month_key e m'"
    show "length pre \<le> length pre'"
    proof (rule ccontr)
      assume "\<not> length pre \<le> length pre'"
      then have "length pre' < length pre" by simp
      with first have "match_month_re e (drop (length pre') s) = None" by blast
      moreover from a have "drop (length pre') s = m' @ post'" by simp
      moreover from a have "match_month_re e (m' @ post') = Some m'"
        unfolding match_month_re_iff by blast
      ultimately show False by simp
    qed
  qed
  with eq key show ?R by blast
next
  assume ?R
  then obtain pre post where eq: "s = pre @ m @ post" and key: "spec_month_key e m"
    and least: "\<forall>pre' m' post'. s = pre' @ m' @ post' \<and> spec_month_key e m' \<longrightarrow>
          length pre \<le> length pre'"
    by blast
  from key have mm: "match_month_re e (m @ post) = Some m"
    unfolding match_month_re_iff by blast
  have "\<forall>i<length pre. match_month_re e (drop i s) = None"
  proof (intro allI impI)
    fix i assume i: "i < length pre"
    show "match_month_re e (drop i s) = None"
    proof (rule ccontr)
      assume "match_month_re e (drop i s) \<noteq> None"
      then obtain m' where "match_month_re e (drop i s) = Some m'" by blast
      then obtain rest where k: "spec_month_key e m'" and d: "drop i s = m' @ rest"
        unfolding match_month_re_iff by blast
      have "s = take i s @ m' @ rest" using d by (metis append_take_drop_id)
      with least k have "length pre \<le> length (take i s)" by blast
      moreover have "length (take i s) \<le> i" by simp
      ultimately show False using i by simp
    qed
  qed
  with eq mm show ?L by blast
qed

lemma no_month_key:
  "(\<forall>i<length s. match_month_re e (drop i s) = None) \<longleftrightarrow>
   \<not> (\<exists>pre m post. s = pre @ m @ post \<and> spec_month_key e m)"
proof
  assume a: "\<forall>i<length s. match_month_re e (drop i s) = None"
  show "\<not> (\<exists>pre m post. s = pre @ m @ post \<and> spec_month_key e m)"
  proof
    assume "\<exists>pre m post. s = pre @ m @ post \<and> spec_month_key e m"
    then obtain pre m post where eq: "s = pre @ m @ post" and k: "spec_month_key e m"
      by blast
    from k have "m \<noteq> []" unfolding spec_month_key_def by auto
    with eq have "length pre < length s" by simp
    with a have "match_month_re e (drop (length pre) s) = None" by blast
    moreover from eq have "drop (length pre) s = m @ post" by simp
    moreover from k have "match_month_re e (m @ post) = Some m"
      unfolding match_month_re_iff by blast
    ultimately show False by simp
  qed
next
  assume a: "\<not> (\<exists>pre m post. s = pre @ m @ post \<and> spec_month_key e m)"
  show "\<forall>i<length s. match_month_re e (drop i s) = None"
  proof (intro allI impI)
    fix i assume "i < length s"
    show "match_month_re e (drop i s) = None"
    proof (rule ccontr)
      assume "match_month_re e (drop i s) \<noteq> None"
      then obtain m' where "match_month_re e (drop i s) = Some m'" by blast
      then obtain rest where k: "spec_month_key e m'" and d: "drop i s = m' @ rest"
        unfolding match_month_re_iff by blast
      have "s = take i s @ m' @ rest" using d by (metis append_take_drop_id)
      with k a show False by blast
    qed
  qed
qed

lemma parse_report_month_no_slash:
  assumes "parse_report_month e p = Inr m" shows "CHR ''/'' \<notin> set m"
proof -
  from assms have "re_search_month e (path_name p) = Some m"
    by (simp only: parse_report_month_Inr_iff)
  then obtain post where "match_month_re e (m @ post) = Some m"
    unfolding re_search_month_Some_iff by blast
  then have "spec_month_key e m" unfolding match_month_re_iff by blast
  then show ?thesis by (rule spec_month_key_no_slash)
qed

lemma spec_month_key_ascii:
  assumes "list_all is_ascii m"
  shows "spec_month_key e m \<longleftrightarrow>
     (\<exists>a b c d. m = [CHR ''2'', CHR ''0'', a, b, CHR ''-'', c, d] \<and>
        a \<in> set ''0123456789'' \<and> b \<in> set ''0123456789'' \<and>
        c \<in> set ''0123456789'' \<and> d \<in> set ''0123456789'')"
proof
  assume "spec_month_key e m"
  then obtain d1 d2 d3 d4 where m: "m = ''20'' @ d1 @ d2 @ ''-'' @ d3 @ d4"
    and dd: "spec_decimal_digit e d1" "spec_decimal_digit e d2"
            "spec_decimal_digit e d3" "spec_decimal_digit e d4"
    unfolding spec_month_key_def by blast
  have asc: "\<And>x. x \<in> set d1 \<union> set d2 \<union> set d3 \<union> set d4 \<Longrightarrow> is_ascii x"
    using assms unfolding m by (auto simp: list_all_iff)
  have one: "\<And>x. spec_decimal_digit e x \<Longrightarrow> (\<And>y. y \<in> set x \<Longrightarrow> is_ascii y) \<Longrightarrow>
      \<exists>c. x = [c] \<and> c \<in> set ''0123456789''"
  proof -
    fix x assume sd: "spec_decimal_digit e x" and a: "\<And>y. y \<in> set x \<Longrightarrow> is_ascii y"
    from sd have "(\<exists>c'. x = [c'] \<and> c' \<in> set ''0123456789'') \<or>
        (\<exists>c' cs'. x = c' # cs' \<and> \<not> is_ascii c')"
      unfolding spec_decimal_digit_def by (cases x) auto
    with a show "\<exists>c. x = [c] \<and> c \<in> set ''0123456789''" by auto
  qed
  from one [OF dd(1)] asc obtain a where a: "d1 = [a]" "a \<in> set ''0123456789''" by auto
  from one [OF dd(2)] asc obtain b where b: "d2 = [b]" "b \<in> set ''0123456789''" by auto
  from one [OF dd(3)] asc obtain c where c: "d3 = [c]" "c \<in> set ''0123456789''" by auto
  from one [OF dd(4)] asc obtain d where d: "d4 = [d]" "d \<in> set ''0123456789''" by auto
  have "m = [CHR ''2'', CHR ''0'', a, b, CHR ''-'', c, d]"
    unfolding m a(1) b(1) c(1) d(1) by simp
  with a(2) b(2) c(2) d(2)
  show "\<exists>a b c d. m = [CHR ''2'', CHR ''0'', a, b, CHR ''-'', c, d] \<and>
        a \<in> set ''0123456789'' \<and> b \<in> set ''0123456789'' \<and>
        c \<in> set ''0123456789'' \<and> d \<in> set ''0123456789''"
    by blast
next
  assume "\<exists>a b c d. m = [CHR ''2'', CHR ''0'', a, b, CHR ''-'', c, d] \<and>
        a \<in> set ''0123456789'' \<and> b \<in> set ''0123456789'' \<and>
        c \<in> set ''0123456789'' \<and> d \<in> set ''0123456789''"
  then obtain a b c d where m: "m = [CHR ''2'', CHR ''0'', a, b, CHR ''-'', c, d]"
    and dg: "a \<in> set ''0123456789''" "b \<in> set ''0123456789''"
        "c \<in> set ''0123456789''" "d \<in> set ''0123456789''"
    by blast
  have sd: "\<And>x. x \<in> set ''0123456789'' \<Longrightarrow> spec_decimal_digit e [x]"
    unfolding spec_decimal_digit_def by blast
  have "m = ''20'' @ [a] @ [b] @ ''-'' @ [c] @ [d]" unfolding m by simp
  with sd [OF dg(1)] sd [OF dg(2)] sd [OF dg(3)] sd [OF dg(4)]
  show "spec_month_key e m" unfolding spec_month_key_def by blast
qed

lemma parse_ascii_examples:
  "parse_report_month e ''sales_2024-13.xlsx'' = Inr ''2024-13''"
  "parse_report_month e ''sales_2024-00.xlsx'' = Inr ''2024-00''"
  "parse_report_month e ''2023-05_to_2024-06.xlsx'' = Inr ''2023-05''"
  "parse_report_month e ''sales_20x4-01.xlsx'' =
     Inl (ValueError ''Could not parse report month from file name: sales_20x4-01.xlsx'')"
  "parse_report_month e ''sales_2024-1.xlsx'' =
     Inl (ValueError ''Could not parse report month from file name: sales_2024-1.xlsx'')"
  by (simp_all add: parse_report_month_def path_name_def match_month_re_def match_digit_def
      is_ascii_def)

lemma discover_single_examples:
  "discover_input_files e [(''in/sales_2024-13.xlsx'', f)] ''in'' =
     ([\<lparr>path = ''in/sales_2024-13.xlsx'', file_name = ''sales_2024-13.xlsx'',
        report_month = ''2024-13'', size_bytes = st_size (content f),
        modified_at_utc = iso_of_epoch e (st_mtime f),
        modified_at_epoch = st_mtime f\<rparr>], [])"
  "discover_input_files e [(''in/sales_20x4-01.xlsx'', f)] ''in'' =
     ([], [JDict [(''file'', JStr ''in/sales_20x4-01.xlsx''),
                  (''reason'', JStr ''invalid_report_month: Could not parse report month from file name: sales_20x4-01.xlsx'')]])"
  by (simp_all add: discover_input_files_def glob_xlsx_def dir_entries_def ends_with_def
      parse_report_month_def path_name_def match_month_re_def match_digit_def
      is_ascii_def stat_size_def stat_mtime_def rejection_def)

text \<open>
  C10. \<^verbatim>\<open>parse_report_month\<close> accepts a path exactly when its file name contains a
  month key (\<^verbatim>\<open>20\<close>, two decimal digits, a hyphen, two decimal digits), and the key
  it returns is the first one: no key starts at an earlier position. Otherwise it
  raises \<^verbatim>\<open>ValueError\<close> with the file name in the message. On ASCII the key is seven
  characters with the digits \<^verbatim>\<open>0\<close> to \<^verbatim>\<open>9\<close>. The month digits are not checked
  against 01..12: \<^verbatim>\<open>sales_2024-13.xlsx\<close> and \<^verbatim>\<open>sales_2024-00.xlsx\<close> are accepted,
  and \<^verbatim>\<open>sales_2024-13.xlsx\<close> enters discovery as a candidate; of two keys in a name
  the earlier one is returned; a name with a letter or nothing where a digit must stand
  is refused and enters the rejection list of discovery.
\<close>

theorem parse_report_month_first_match:
  "(parse_report_month e p = Inr m \<longleftrightarrow>
      (\<exists>pre post. path_name p = pre @ m @ post \<and> spec_month_key e m \<and>
         (\<forall>pre' m' post'. path_name p = pre' @ m' @ post' \<and> spec_month_key e m' \<longrightarrow>
             length pre \<le> length pre'))) \<and>
   (parse_report_month e p = Inl err \<longleftrightarrow>
      err = ValueError (''Could not parse report month from file name: '' @ path_name p) \<and>
      \<not> (\<exists>pre m' post. path_name p = pre @ m' @ post \<and> spec_month_key e m')) \<and>
   (list_all is_ascii k \<longrightarrow>
      (spec_month_key e k \<longleftrightarrow>
         (\<exists>a b c d. k = [CHR ''2'', CHR ''0'', a, b, CHR ''-'', c, d] \<and>
            a \<in> set ''0123456789'' \<and> b \<in> set ''0123456789'' \<and>
            c \<in> set ''0123456789'' \<and> d \<in> set ''0123456789''))) \<and>
   parse_report_month e ''sales_2024-13.xlsx'' = Inr ''2024-13'' \<and>
   parse_report_month e ''sales_2024-00.xlsx'' = Inr ''2024-00'' \<and>
   parse_report_month e ''2023-05_to_2024-06.xlsx'' = Inr ''2023-05'' \<and>
   parse_report_month e ''sales_20x4-01.xlsx'' =
     Inl (ValueError ''Could not parse report month from file name: sales_20x4-01.xlsx'') \<and>
   parse_report_month e ''sales_2024-1.xlsx'' =
     Inl (ValueError ''Could not parse report month from file name: sales_2024-1.xlsx'') \<and>
   discover_input_files e [(''in/sales_2024-13.xlsx'', f)] ''in'' =
     ([\<lparr>path = ''in/sales_2024-13.xlsx'', file_name = ''sales_2024-13.xlsx'',
        report_month = ''2024-13'', size_bytes = st_size (content f),
        modified_at_utc = iso_of_epoch e (st_mtime f),
        modified_at_epoch = st_mtime f\<rparr>], []) \<and>
   discover_input_files e [(''in/sales_20x4-01.xlsx'', f)] ''in'' =
     ([], [JDict [(''file'', JStr ''in/sales_20x4-01.xlsx''),
                  (''reason'', JStr ''invalid_report_month: Could not parse report month from file name: sales_20x4-01.xlsx'')]])"
proof -
  have A: "parse_report_month e p = Inr m \<longleftrightarrow>
      (\<exists>pre post. path_name p = pre @ m @ post \<and> spec_month_key e m \<and>
         (\<forall>pre' m' post'. path_name p = pre' @ m' @ post' \<and> spec_month_key e m' \<longrightarrow>
             length pre \<le> length pre'))"
    by (simp only: parse_report_month_Inr_iff re_search_month_Some_iff first_month_key)
  have B: "parse_report_month e p = Inl err \<longleftrightarrow>
      err = ValueError (''Could not parse report month from file name: '' @ path_name p) \<and>
      \<not> (\<exists>pre m' post. path_name p = pre @ m' @ post \<and> spec_month_key e m')"
    unfolding parse_report_month_Inl_iff re_search_month_None_iff no_month_key by blast
  have C: "list_all is_ascii k \<longrightarrow>
      (spec_month_key e k \<longleftrightarrow>
         (\<exists>a b c d. k = [CHR ''2'', CHR ''0'', a, b, CHR ''-'', c, d] \<and>
            a \<in> set ''0123456789'' \<and> b \<in> set ''0123456789'' \<and>
            c \<in> set ''0123456789'' \<and> d \<in> set ''0123456789''))"
    by (rule impI) (rule spec_month_key_ascii)
  from A B C parse_ascii_examples discover_single_examples show ?thesis
    by (intro conjI)
qed

lemma fullwidth_parse:
  "parse_report_month demo_env (''in/'' @ fullwidth_name) = Inr fullwidth_key"
  by code_simp

theorem parse_report_month_first_match_witness:
  "parse_report_month demo_env (''in/'' @ fullwidth_name) = Inr fullwidth_key \<and>
   (\<exists>pre post. path_name (''in/'' @ fullwidth_name) = pre @ fullwidth_key @ post \<and>
      spec_month_key demo_env fullwidth_key \<and>
      (\<forall>pre' m' post'.
          path_name (''in/'' @ fullwidth_name) = pre' @ m' @ post' \<and>
          spec_month_key demo_env m' \<longrightarrow> length pre \<le> length pre')) \<and>
   parse_report_month demo_env (''in/'' @ fullwidth_name) \<noteq> Inr ''2024-02'' \<and>
   list_all is_ascii ''2024-13'' \<and> spec_month_key demo_env ''2024-13''"
proof -
  note inst = parse_report_month_first_match
      [where e = demo_env and p = "''in/'' @ fullwidth_name" and m = fullwidth_key
         and k = "''2024-13''"]
  have asc: "list_all is_ascii ''2024-13''" by (simp add: is_ascii_def)
  have ne: "fullwidth_key \<noteq> ''2024-02''" by (simp add: fullwidth_key_def)
  from inst [THEN conjunct1] fullwidth_parse
  have a: "\<exists>pre post. path_name (''in/'' @ fullwidth_name) = pre @ fullwidth_key @ post \<and>
      spec_month_key demo_env fullwidth_key \<and>
      (\<forall>pre' m' post'.
          path_name (''in/'' @ fullwidth_name) = pre' @ m' @ post' \<and>
          spec_month_key demo_env m' \<longrightarrow> length pre \<le> length pre')"
    by (simp only: simp_thms)
  from inst [THEN conjunct2, THEN conjunct2, THEN conjunct1] asc
  have b: "spec_month_key demo_env ''2024-13''" by simp
  from fullwidth_parse ne
  have c: "parse_report_month demo_env (''in/'' @ fullwidth_name) \<noteq> Inr ''2024-02''"
    by simp
  show ?thesis
    by (intro conjI) (rule fullwidth_parse, rule a, rule c, rule asc, rule b)
qed

subsection \<open>Files\<close>

lemma map_of_write_file_same:
  "map_of (write_file fs p c t) p = Some \<lparr>content = c, st_mtime = t\<rparr>"
  by (simp add: write_file_def update_conv')

lemma map_of_write_file_other:
  "q \<noteq> p \<Longrightarrow> map_of (write_file fs p c t) q = map_of fs q"
  by (simp add: write_file_def update_conv')

lemma path_exists_file: "map_of fs p = Some f \<Longrightarrow> path_exists fs p"
  by (simp add: path_exists_def)

subsection \<open>Loading the state\<close>

text \<open>
  C8. Without a state file \<^verbatim>\<open>load_state\<close> returns the empty state with the schema id
  of its stage and no records, in both scripts. When the file holds a JSON object whose
  \<^verbatim>\<open>files\<close> (or \<^verbatim>\<open>months\<close>) entry is not an object, it raises \<^verbatim>\<open>ValueError\<close>; the
  exception leaves \<^verbatim>\<open>main\<close> (or \<^verbatim>\<open>run_curated_build\<close>) with the file system as it was:
  no partition has been processed.
\<close>

theorem load_state_missing_or_malformed:
  "(\<not> path_exists fs p \<longrightarrow>
      load_state fs p = Inr \<lparr>schema_id = JStr SCHEMA_ID, updated_at = JNull, files = []\<rparr> \<and>
      curated_load_state fs p =
        Inr \<lparr>curated_schema_id = JStr CURATED_SCHEMA_ID, curated_updated_at = JNull,
             months = []\<rparr>) \<and>
   (map_of fs p = Some f \<and> json_loads (content f) = Inr (JDict payload) \<and>
    map_of payload ''files'' = Some x \<and> (\<forall>d. x \<noteq> JDict d) \<longrightarrow>
      load_state fs p = Inl (ValueError (''Invalid state file format at '' @ p))) \<and>
   (map_of fs p = Some f \<and> json_loads (content f) = Inr (JDict payload) \<and>
    map_of payload ''months'' = Some x \<and> (\<forall>d. x \<noteq> JDict d) \<longrightarrow>
      curated_load_state fs p = Inl (ValueError (''Invalid curated state file: '' @ p))) \<and>
   (is_dir fs (arg_input_dir a) \<and> load_state fs (main_state_path a) = Inl err \<longrightarrow>
      main e fs a = Inl (err, fs)) \<and>
   (curated_load_state fs (effective_state_path root sp) = Inl err \<longrightarrow>
      (\<exists>err'. run_curated_build e fs root ms sp = Inl (err', fs)))"
proof (intro conjI impI)
  assume "\<not> path_exists fs p"
  then show "load_state fs p = Inr \<lparr>schema_id = JStr SCHEMA_ID, updated_at = JNull, files = []\<rparr>"
    by (simp add: load_state_def)
next
  assume "\<not> path_exists fs p"
  then show "curated_load_state fs p =
      Inr \<lparr>curated_schema_id = JStr CURATED_SCHEMA_ID, curated_updated_at = JNull, months = []\<rparr>"
    by (simp add: curated_load_state_def)
next
  assume "map_of fs p = Some f \<and> json_loads (content f) = Inr (JDict payload) \<and>
    map_of payload ''files'' = Some x \<and> (\<forall>d. x \<noteq> JDict d)"
  then show "load_state fs p = Inl (ValueError (''Invalid state file format at '' @ p))"
    by (cases x) (simp_all add: load_state_def path_exists_file dict_get_def)
next
  assume "map_of fs p = Some f \<and> json_loads (content f) = Inr (JDict payload) \<and>
    map_of payload ''months'' = Some x \<and> (\<forall>d. x \<noteq> JDict d)"
  then show "curated_load_state fs p = Inl (ValueError (''Invalid curated state file: '' @ p))"
    by (cases x)
      (simp_all add: curated_load_state_def path_exists_file dict_get_def)
next
  assume "is_dir fs (arg_input_dir a) \<and> load_state fs (main_state_path a) = Inl err"
  then show "main e fs a = Inl (err, fs)"
    by (simp add: main_def ingest_stage_def)
next
  assume "curated_load_state fs (effective_state_path root sp) = Inl err"
  then show "\<exists>err'. run_curated_build e fs root ms sp = Inl (err', fs)"
    by (auto simp add: run_curated_build_def Let_def split: sum.splits prod.splits)
qed

theorem load_state_missing_or_malformed_witness:
  "\<not> path_exists fs_jan ''out/state/sales_monthly/v1/processed_files.json'' \<and>
   load_state fs_jan ''out/state/sales_monthly/v1/processed_files.json'' =
     Inr \<lparr>schema_id = JStr SCHEMA_ID, updated_at = JNull, files = []\<rparr> \<and>
   map_of [(''in/x_2024-01.xlsx'', \<lparr>content = Raw ''a'', st_mtime = 1\<rparr>),
           (''s.json'', \<lparr>content = Json (JDict [(''files'', JList []), (''months'', JInt 3)]),
                         st_mtime = 1\<rparr>)] ''s.json'' =
     Some \<lparr>content = Json (JDict [(''files'', JList []), (''months'', JInt 3)]), st_mtime = 1\<rparr> \<and>
   json_loads (Json (JDict [(''files'', JList []), (''months'', JInt 3)])) =
     Inr (JDict [(''files'', JList []), (''months'', JInt 3)]) \<and>
   load_state [(''in/x_2024-01.xlsx'', \<lparr>content = Raw ''a'', st_mtime = 1\<rparr>),
               (''s.json'', \<lparr>content = Json (JDict [(''files'', JList []), (''months'', JInt 3)]),
                             st_mtime = 1\<rparr>)] ''s.json'' =
     Inl (ValueError ''Invalid state file format at s.json'') \<and>
   curated_load_state [(''in/x_2024-01.xlsx'', \<lparr>content = Raw ''a'', st_mtime = 1\<rparr>),
               (''s.json'', \<lparr>content = Json (JDict [(''files'', JList []), (''months'', JInt 3)]),
                             st_mtime = 1\<rparr>)] ''s.json'' =
     Inl (ValueError ''Invalid curated state file: s.json'') \<and>
   main demo_env [(''in/x_2024-01.xlsx'', \<lparr>content = Raw ''a'', st_mtime = 1\<rparr>),
               (''s.json'', \<lparr>content = Json (JDict [(''files'', JList []), (''months'', JInt 3)]),
                             st_mtime = 1\<rparr>)] (raw_only_args\<lparr>arg_state_file := Some ''s.json''\<rparr>) =
     Inl (ValueError ''Invalid state file format at s.json'',
          [(''in/x_2024-01.xlsx'', \<lparr>content = Raw ''a'', st_mtime = 1\<rparr>),
           (''s.json'', \<lparr>content = Json (JDict [(''files'', JList []), (''months'', JInt 3)]),
                         st_mtime = 1\<rparr>)]) \<and>
   (\<exists>err'. run_curated_build demo_env
             [(''in/x_2024-01.xlsx'', \<lparr>content = Raw ''a'', st_mtime = 1\<rparr>),
              (''s.json'', \<lparr>content = Json (JDict [(''files'', JList []), (''months'', JInt 3)]),
                            st_mtime = 1\<rparr>)] ''out'' None (Some ''s.json'') =
      Inl (err', [(''in/x_2024-01.xlsx'', \<lparr>content = Raw ''a'', st_mtime = 1\<rparr>),
              (''s.json'', \<lparr>content = Json (JDict [(''files'', JList []), (''months'', JInt 3)]),
                            st_mtime = 1\<rparr>)]))"
proof -
  let ?fs = "[(''in/x_2024-01.xlsx'', \<lparr>content = Raw ''a'', st_mtime = 1\<rparr>),
              (''s.json'', \<lparr>content = Json (JDict [(''files'', JList []), (''months'', JInt 3)]),
                            st_mtime = 1\<rparr>)]"
  let ?f = "\<lparr>content = Json (JDict [(''files'', JList []), (''months'', JInt 3)]), st_mtime = 1\<rparr>"
  let ?a = "raw_only_args\<lparr>arg_state_file := Some ''s.json''\<rparr>"
  have missing: "\<not> path_exists fs_jan ''out/state/sales_monthly/v1/processed_files.json''"
    by (simp add: path_exists_def is_dir_def fs_jan_def)
  have there: "map_of ?fs ''s.json'' = Some ?f" by simp
  have jl: "json_loads (Json (JDict [(''files'', JList []), (''months'', JInt 3)])) =
     Inr (JDict [(''files'', JList []), (''months'', JInt 3)])"
    by (simp add: json_loads_def dict_of_pairs_def)
  have dir: "is_dir ?fs (arg_input_dir ?a)"
    by (simp add: is_dir_def raw_only_args_def)
  have sp: "main_state_path ?a = ''s.json''" "effective_state_path ''out'' (Some ''s.json'') = ''s.json''"
    by (simp_all add: main_state_path_def effective_state_path_def)
  note thm1 = load_state_missing_or_malformed
      [where fs = fs_jan and p = "''out/state/sales_monthly/v1/processed_files.json''"]
  note thm2 = load_state_missing_or_malformed
      [where fs = ?fs and p = "''s.json''" and f = ?f
         and payload = "[(''files'', JList []), (''months'', JInt 3)]" and x = "JList []"
         and a = ?a and err = "ValueError ''Invalid state file format at s.json''"
         and e = demo_env]
  note thm3 = load_state_missing_or_malformed
      [where fs = ?fs and p = "''s.json''" and f = ?f
         and payload = "[(''files'', JList []), (''months'', JInt 3)]" and x = "JInt 3"
         and err = "ValueError ''Invalid curated state file: s.json''"
         and e = demo_env and root = "''out''" and sp = "Some ''s.json''" and ms = None]
  from missing thm1 have a: "load_state fs_jan ''out/state/sales_monthly/v1/processed_files.json'' =
     Inr \<lparr>schema_id = JStr SCHEMA_ID, updated_at = JNull, files = []\<rparr>"
    by blast
  from there jl thm2 have b: "load_state ?fs ''s.json'' =
      Inl (ValueError ''Invalid state file format at s.json'')"
    by simp
  from there jl thm3 have c: "curated_load_state ?fs ''s.json'' =
      Inl (ValueError ''Invalid curated state file: s.json'')"
    by simp
  from dir b sp thm2 have d: "main demo_env ?fs ?a =
      Inl (ValueError ''Invalid state file format at s.json'', ?fs)"
    by simp
  from c sp thm3 have f: "\<exists>err'. run_curated_build demo_env ?fs ''out'' None (Some ''s.json'') =
      Inl (err', ?fs)"
    by simp
  from missing a there jl b c d f show ?thesis by blast
qed

subsection \<open>Saving the state\<close>

text \<open>
  C3, as the code has it. \<^verbatim>\<open>save_state\<close> stamps \<^verbatim>\<open>updated_at\<close> with the clock's
  reading and writes the whole state with one \<^verbatim>\<open>write_text\<close> on the state path
  itself, in both scripts: a reader first sees the state file truncated to nothing,
  then the full document; no other path changes at any moment, so there is no temporary
  file and no rename. Once the call has returned the file holds the full state.
\<close>

theorem save_state_writes_in_place:
  "save_state_steps e fs p s =
     [write_file fs p (Raw []) (time_now e), fst (save_state e fs p s)] \<and>
   map_of (fst (save_state e fs p s)) p =
     Some \<lparr>content = Json (JDict [(''schema_id'', schema_id s),
                                  (''updated_at'', JStr (utc_now_iso e)),
                                  (''files'', JDict (files s))]),
          st_mtime = time_now e\<rparr> \<and>
   updated_at (snd (save_state e fs p s)) = JStr (utc_now_iso e) \<and>
   (\<forall>x \<in> set (save_state_steps e fs p s). \<forall>q. q \<noteq> p \<longrightarrow> map_of x q = map_of fs q) \<and>
   curated_save_state_steps e fs p c =
     [write_file fs p (Raw []) (time_now e), fst (curated_save_state e fs p c)] \<and>
   map_of (fst (curated_save_state e fs p c)) p =
     Some \<lparr>content = Json (JDict [(''schema_id'', curated_schema_id c),
                                  (''updated_at'', JStr (utc_now_iso e)),
                                  (''months'', JDict (months c))]),
          st_mtime = time_now e\<rparr> \<and>
   curated_updated_at (snd (curated_save_state e fs p c)) = JStr (utc_now_iso e) \<and>
   (\<forall>x \<in> set (curated_save_state_steps e fs p c).
      \<forall>q. q \<noteq> p \<longrightarrow> map_of x q = map_of fs q)"
  by (simp add: save_state_steps_def save_state_def curated_save_state_steps_def
      curated_save_state_def write_text_steps_def Let_def state_document_def
      curated_state_document_def map_of_write_file_same map_of_write_file_other)

theorem save_state_writes_in_place_witness:
  "save_state_steps demo_env fs_jan ''out/state.json'' empty_state =
     [write_file fs_jan ''out/state.json'' (Raw []) 5,
      fst (save_state demo_env fs_jan ''out/state.json'' empty_state)] \<and>
   map_of (hd (save_state_steps demo_env fs_jan ''out/state.json'' empty_state))
     ''in/s_2024-01.xlsx'' = Some \<lparr>content = Raw ''a'', st_mtime = 1\<rparr> \<and>
   map_of (fst (save_state demo_env fs_jan ''out/state.json'' empty_state)) ''out/state.json'' =
     Some \<lparr>content = Json (JDict [(''schema_id'', JStr ''sales_monthly_v1''),
                                  (''updated_at'', JStr ''2024-03-01T00:00:00+00:00''),
                                  (''files'', JDict [])]),
          st_mtime = 5\<rparr>"
proof -
  note inst = save_state_writes_in_place
      [where e = demo_env and fs = fs_jan and p = "''out/state.json''" and s = empty_state]
  have tn: "time_now demo_env = 5" "utc_now_iso demo_env = ''2024-03-01T00:00:00+00:00''"
    by (simp_all add: demo_env_def)
  have st: "schema_id empty_state = JStr ''sales_monthly_v1''" "files empty_state = []"
    by (simp_all add: empty_state_def SCHEMA_ID_def)
  have steps: "save_state_steps demo_env fs_jan ''out/state.json'' empty_state =
     [write_file fs_jan ''out/state.json'' (Raw []) 5,
      fst (save_state demo_env fs_jan ''out/state.json'' empty_state)]"
    using inst [THEN conjunct1] tn by simp
  have frame: "\<forall>x \<in> set (save_state_steps demo_env fs_jan ''out/state.json'' empty_state).
      \<forall>q. q \<noteq> ''out/state.json'' \<longrightarrow> map_of x q = map_of fs_jan q"
    using inst [THEN conjunct2, THEN conjunct2, THEN conjunct2, THEN conjunct1] .
  have mem: "hd (save_state_steps demo_env fs_jan ''out/state.json'' empty_state)
          \<in> set (save_state_steps demo_env fs_jan ''out/state.json'' empty_state)"
    by (simp only: steps list.sel list.set insert_iff simp_thms)
  have ne: "''in/s_2024-01.xlsx'' \<noteq> ''out/state.json''" by simp
  have "map_of (hd (save_state_steps demo_env fs_jan ''out/state.json'' empty_state))
          ''in/s_2024-01.xlsx'' = map_of fs_jan ''in/s_2024-01.xlsx''"
    by (rule frame [rule_format, OF mem ne])
  also have "\<dots> = Some \<lparr>content = Raw ''a'', st_mtime = 1\<rparr>"
    by (simp add: fs_jan_def)
  finally have other: "map_of (hd (save_state_steps demo_env fs_jan ''out/state.json'' empty_state))
     ''in/s_2024-01.xlsx'' = Some \<lparr>content = Raw ''a'', st_mtime = 1\<rparr>" .
  have final: "map_of (fst (save_state demo_env fs_jan ''out/state.json'' empty_state))
       ''out/state.json'' =
     Some \<lparr>content = Json (JDict [(''schema_id'', JStr ''sales_monthly_v1''),
                                  (''updated_at'', JStr ''2024-03-01T00:00:00+00:00''),
                                  (''files'', JDict [])]),
          st_mtime = 5\<rparr>"
    using inst [THEN conjunct2, THEN conjunct1] by (simp only: tn st)
  show ?thesis
    by (intro conjI) (rule steps, rule other, rule final)
qed

text \<open>
  C3 as stated fails: while a saved state file is saved again, a reader can find it
  holding neither the old document nor the new one.
\<close>

theorem save_state_not_all_or_nothing:
  "\<not> (\<forall>x \<in> set (save_state_steps demo_env fs_saved_once ''out/state.json'' empty_state).
        map_of x ''out/state.json'' = map_of fs_saved_once ''out/state.json'' \<or>
        map_of x ''out/state.json'' =
          map_of (fst (save_state demo_env fs_saved_once ''out/state.json'' empty_state))
            ''out/state.json'')"
  by (simp add: save_state_steps_def write_text_steps_def fs_saved_once_def save_state_def
      Let_def map_of_write_file_same)

subsection \<open>Failures of the curated build in a chained run\<close>

text \<open>
  C1, the exit status. On a machine without DuckDB the chained run
  (\<^verbatim>\<open>--build-curated\<close>) ingests the January workbook, \<^verbatim>\<open>build_curated_table\<close> raises
  for the month, the exception is caught and listed in the curated stage's \<^verbatim>\<open>failed\<close>
  list, and the process still exits with status 0; \<^verbatim>\<open>build_curated_sales_monthly.main\<close>
  exits with status 1 on the same summary.
\<close>

theorem chained_curated_failure_exits_zero:
  "(case main demo_env_no_duckdb fs_jan pipeline_args of
      Inl x \<Rightarrow> False
    | Inr r \<Rightarrow>
        failed (vars (ingest r)) = [] \<and>
        (case curated_run r of
           Some (Inr c) \<Rightarrow>
             failed (vars c) =
               [JDict [(''report_month'', JStr ''2024-01''),
                       (''raw_parquet_path'',
                          JStr ''out/raw/sales_monthly/v1/report_month_2024-01/sales_monthly_v1.parquet''),
                       (''error'', JStr ''duckdb is not installed'')]] \<and>
             curated_main_exit_code (Inr c) = 1
         | _ \<Rightarrow> False)) \<and>
   main_exit_code (main demo_env_no_duckdb fs_jan pipeline_args) = 0"
  by code_simp

subsection \<open>A deleted output in the raw stage\<close>

text \<open>
  C2, the raw stage. The state records the January workbook with its checksum and its
  parquet path; the parquet file has been deleted. The raw stage still lists the
  workbook as unchanged, processes nothing and leaves the parquet file missing.
\<close>

theorem raw_stage_skips_deleted_output:
  "(case ingest_stage demo_env fs_jan_output_deleted raw_only_args of
      Inl x \<Rightarrow> False
    | Inr s \<Rightarrow>
        processed (vars s) = [] \<and>
        unchanged (vars s) =
          [JDict [(''file'', JStr ''in/s_2024-01.xlsx''), (''report_month'', JStr ''2024-01'')]] \<and>
        \<not> path_exists (fs_end s)
            ''out/raw/sales_monthly/v1/report_month_2024-01/sales_monthly_v1.parquet'') \<and>
   \<not> path_exists fs_jan_output_deleted
       ''out/raw/sales_monthly/v1/report_month_2024-01/sales_monthly_v1.parquet'' \<and>
   (case load_state fs_jan_output_deleted (main_state_path raw_only_args) of
      Inl x \<Rightarrow> False
    | Inr st \<Rightarrow>
        json_get (dict_get (files st) ''in/s_2024-01.xlsx'' JNull) ''parquet_path'' JNull =
          Inr (JStr ''out/raw/sales_monthly/v1/report_month_2024-01/sales_monthly_v1.parquet'') \<and>
        map_sum id JStr (file_sha256 demo_env fs_jan_output_deleted ''in/s_2024-01.xlsx'') =
          json_get (dict_get (files st) ''in/s_2024-01.xlsx'' JNull) ''sha256'' JNull)"
  by code_simp

subsection \<open>Discovery: one file per report month\<close>

lemma by_month_loop_append:
  "by_month_loop (xs @ ys) bm sk =
     (case by_month_loop xs bm sk of (bm1, sk1) \<Rightarrow> by_month_loop ys bm1 sk1)"
  by (induction xs arbitrary: bm sk) (auto split: option.splits)

lemma by_month_loop_distinct:
  "by_month_loop cs bm0 sk0 = (bm, sk) \<Longrightarrow> distinct (map fst bm0) \<Longrightarrow> distinct (map fst bm)"
  by (induction cs arbitrary: bm0 sk0)
     (auto split: option.splits if_splits simp: distinct_update)

lemma by_month_loop_keys:
  "by_month_loop cs [] sk0 = (bm, sk) \<Longrightarrow> i < length cs \<Longrightarrow>
     map_of bm (report_month (cs ! i)) \<noteq> None"
proof (induction cs arbitrary: bm sk i rule: rev_induct)
  case Nil
  then show ?case by simp
next
  case (snoc x xs)
  obtain bm1 sk1 where l: "by_month_loop xs [] sk0 = (bm1, sk1)" by fastforce
  from snoc.prems(1) l have s: "by_month_loop [x] bm1 sk1 = (bm, sk)"
    by (simp add: by_month_loop_append)
  show ?case
  proof (cases "i < length xs")
    case True
    with snoc.IH [OF l] have "map_of bm1 (report_month (xs ! i)) \<noteq> None" by simp
    with s True show ?thesis
      by (auto simp: nth_append update_conv' split: option.splits if_splits)
  next
    case False
    with snoc.prems(2) have "i = length xs" by simp
    with s show ?thesis
      by (auto simp: nth_append update_conv' split: option.splits if_splits)
  qed
qed

lemma by_month_loop_winner:
  "by_month_loop cs [] sk0 = (bm, sk) \<Longrightarrow> map_of bm m = Some w \<Longrightarrow>
     \<exists>k<length cs. cs ! k = w \<and> report_month w = m \<and>
        (\<forall>i<length cs. report_month (cs ! i) = m \<longrightarrow>
            modified_at_epoch (cs ! i) \<le> modified_at_epoch w) \<and>
        (\<forall>i<k. report_month (cs ! i) = m \<longrightarrow>
            modified_at_epoch (cs ! i) < modified_at_epoch w)"
proof (induction cs arbitrary: bm sk m w rule: rev_induct)
  case Nil
  then show ?case by simp
next
  case (snoc x xs)
  obtain bm1 sk1 where l: "by_month_loop xs [] sk0 = (bm1, sk1)" by fastforce
  from snoc.prems(1) l have s: "by_month_loop [x] bm1 sk1 = (bm, sk)"
    by (simp add: by_month_loop_append)
  note IH = snoc.IH [OF l]
  note keys = by_month_loop_keys [OF l]
  show ?case
  proof (cases "map_of bm1 (report_month x)")
    case None
    with s have bm: "bm = AList.update (report_month x) x bm1" by simp
    show ?thesis
    proof (cases "m = report_month x")
      case True
      with bm snoc.prems(2) have w: "w = x" by (simp add: update_conv')
      have no: "\<forall>i<length xs. report_month (xs ! i) \<noteq> m"
      proof (intro allI impI notI)
        fix i assume "i < length xs" "report_month (xs ! i) = m"
        with keys [of i] None True show False by simp
      qed
      show ?thesis
        apply (rule exI [of _ "length xs"])
        using w True no by (auto simp: nth_append less_Suc_eq)
    next
      case False
      with bm snoc.prems(2) have "map_of bm1 m = Some w" by (simp add: update_conv')
      from IH [OF this] obtain k where k: "k < length xs" "xs ! k = w" "report_month w = m"
        "\<forall>i<length xs. report_month (xs ! i) = m \<longrightarrow>
            modified_at_epoch (xs ! i) \<le> modified_at_epoch w"
        "\<forall>i<k. report_month (xs ! i) = m \<longrightarrow>
            modified_at_epoch (xs ! i) < modified_at_epoch w"
        by blast
      show ?thesis
        apply (rule exI [of _ k])
        using k False by (auto simp: nth_append less_Suc_eq)
    qed
  next
    case (Some existing)
    from IH [OF Some] obtain k0 where k0: "k0 < length xs" "xs ! k0 = existing"
        "\<forall>i<length xs. report_month (xs ! i) = report_month x \<longrightarrow>
            modified_at_epoch (xs ! i) \<le> modified_at_epoch existing"
        by blast
    show ?thesis
    proof (cases "modified_at_epoch x > modified_at_epoch existing")
      case True
      with s Some have bm: "bm = AList.update (report_month x) x bm1" by simp
      show ?thesis
      proof (cases "m = report_month x")
        case m: True
        with bm snoc.prems(2) have w: "w = x" by (simp add: update_conv')
        show ?thesis
          apply (rule exI [of _ "length xs"])
          using w m k0 True by (fastforce simp: nth_append less_Suc_eq)
      next
        case False
        with bm snoc.prems(2) have "map_of bm1 m = Some w" by (simp add: update_conv')
        from IH [OF this] obtain k where k: "k < length xs" "xs ! k = w" "report_month w = m"
          "\<forall>i<length xs. report_month (xs ! i) = m \<longrightarrow>
              modified_at_epoch (xs ! i) \<le> modified_at_epoch w"
          "\<forall>i<k. report_month (xs ! i) = m \<longrightarrow>
              modified_at_epoch (xs ! i) < modified_at_epoch w"
          by blast
        show ?thesis
          apply (rule exI [of _ k])
          using k False by (auto simp: nth_append less_Suc_eq)
      qed
    next
      case False
      with s Some have bm: "bm = bm1" by simp
      with snoc.prems(2) have "map_of bm1 m = Some w" by simp
      from IH [OF this] obtain k where k: "k < length xs" "xs ! k = w" "report_month w = m"
          "\<forall>i<length xs. report_month (xs ! i) = m \<longrightarrow>
              modified_at_epoch (xs ! i) \<le> modified_at_epoch w"
          "\<forall>i<k. report_month (xs ! i) = m \<longrightarrow>
              modified_at_epoch (xs ! i) < modified_at_epoch w"
          by blast
      have "m = report_month x \<Longrightarrow> w = existing"
        using Some \<open>map_of bm1 m = Some w\<close> by simp
      then show ?thesis
        apply -
        apply (rule exI [of _ k])
        using k False by (auto simp: nth_append less_Suc_eq)
    qed
  qed
qed

lemma by_month_loop_skipped_prefix:
  "by_month_loop cs bm0 sk0 = (bm, sk) \<Longrightarrow> \<exists>ext. sk = sk0 @ ext"
  by (induction cs arbitrary: bm0 sk0) (fastforce split: option.splits if_splits)+

lemma by_month_loop_rejected:
  "by_month_loop cs [] sk0 = (bm, sk) \<Longrightarrow> i < length cs \<Longrightarrow>
   map_of bm (report_month (cs ! i)) \<noteq> Some (cs ! i) \<Longrightarrow>
     \<exists>n. rejection (path (cs ! i)) n \<in> set sk"
proof (induction cs arbitrary: bm sk i rule: rev_induct)
  case Nil
  then show ?case by simp
next
  case (snoc x xs)
  obtain bm1 sk1 where l: "by_month_loop xs [] sk0 = (bm1, sk1)" by fastforce
  from snoc.prems(1) l have s: "by_month_loop [x] bm1 sk1 = (bm, sk)"
    by (simp add: by_month_loop_append)
  from by_month_loop_skipped_prefix [OF s] have sub: "set sk1 \<subseteq> set sk" by auto
  note IH = snoc.IH [OF l]
  show ?case
  proof (cases "i < length xs")
    case old: True
    then have nth: "(xs @ [x]) ! i = xs ! i" by (simp add: nth_append)
    show ?thesis
    proof (cases "map_of bm1 (report_month (xs ! i)) = Some (xs ! i)")
      case False
      from IH [OF old False] sub show ?thesis unfolding nth by blast
    next
      case True
      with snoc.prems(3) nth have changed: "map_of bm (report_month (xs ! i)) \<noteq> Some (xs ! i)"
        by simp
      from s True changed
      have "rejection (path (xs ! i))
              (''duplicate_month_replaced_by_newer_file:'' @ file_name x) \<in> set sk"
        by (cases "report_month x = report_month (xs ! i)")
           (auto simp: update_conv' split: option.splits if_splits)
      then show ?thesis unfolding nth by blast
    qed
  next
    case False
    with snoc.prems(2) have i: "i = length xs" by simp
    then have nth: "(xs @ [x]) ! i = x" by simp
    from snoc.prems(3) nth have "map_of bm (report_month x) \<noteq> Some x" by simp
    with s have "\<exists>n. rejection (path x) n \<in> set sk"
      by (auto simp: update_conv' split: option.splits if_splits)
    then show ?thesis unfolding nth .
  qed
qed

lemma by_month_loop_reasons:
  "by_month_loop cs [] sk0 = (bm, sk) \<Longrightarrow> r \<in> set sk \<Longrightarrow>
     r \<in> set sk0 \<or>
     (\<exists>a b. a \<in> set cs \<and> b \<in> set cs \<and> report_month a = report_month b \<and>
        (r = rejection (path a) (''duplicate_month_replaced_by_newer_file:'' @ file_name b) \<and>
           modified_at_epoch a < modified_at_epoch b \<or>
         r = rejection (path a) (''duplicate_month_older_than:'' @ file_name b) \<and>
           modified_at_epoch a \<le> modified_at_epoch b))"
proof (induction cs arbitrary: bm sk r rule: rev_induct)
  case Nil
  then show ?case by simp
next
  case (snoc x xs)
  obtain bm1 sk1 where l: "by_month_loop xs [] sk0 = (bm1, sk1)" by fastforce
  from snoc.prems(1) l have s: "by_month_loop [x] bm1 sk1 = (bm, sk)"
    by (simp add: by_month_loop_append)
  show ?case
  proof (cases "r \<in> set sk1")
    case True
    from snoc.IH [OF l True] show ?thesis by auto
  next
    case False
    with s snoc.prems(2) obtain existing where ex: "map_of bm1 (report_month x) = Some existing"
      and r: "r = rejection (path existing)
                    (''duplicate_month_replaced_by_newer_file:'' @ file_name x) \<and>
                modified_at_epoch existing < modified_at_epoch x \<or>
              r = rejection (path x) (''duplicate_month_older_than:'' @ file_name existing) \<and>
                modified_at_epoch x \<le> modified_at_epoch existing"
      by (auto split: option.splits if_splits)
    from by_month_loop_winner [OF l ex] have "existing \<in> set xs"
      and "report_month existing = report_month x"
      by auto
    with r show ?thesis
      apply (intro disjI2)
      apply (elim disjE)
       apply (rule exI [of _ existing], rule exI [of _ x], simp)
      apply (rule exI [of _ x], rule exI [of _ existing], simp)
      done
  qed
qed

lemma filter_key_distinct:
  "distinct (map fst al) \<Longrightarrow> map_of al k = Some v \<Longrightarrow> filter (\<lambda>x. fst x = k) al = [(k, v)]"
proof (induction al)
  case Nil
  then show ?case by simp
next
  case (Cons x al)
  show ?case
  proof (cases "fst x = k")
    case True
    with Cons.prems have "x = (k, v)" by (cases x) simp
    moreover have "filter (\<lambda>y. fst y = k) al = []"
    proof -
      from Cons.prems(1) True have "k \<notin> fst ` set al" by simp
      then have "\<forall>y \<in> set al. fst y \<noteq> k" by (metis imageI)
      then show ?thesis by (simp add: filter_empty_conv)
    qed
    ultimately show ?thesis using True by simp
  next
    case False
    with Cons show ?thesis by (cases x) simp
  qed
qed

lemma by_month_loop_values:
  assumes "by_month_loop cs [] sk0 = (bm, sk)" and "map_of bm m = Some w"
  shows "w \<in> set cs \<and> report_month w = m"
  using by_month_loop_winner [OF assms] by auto

lemma by_month_winner_sorted:
  fixes key :: "candidate \<Rightarrow> 'k::linorder"
  assumes loop: "by_month_loop cs [] sk0 = (bm, sk)"
    and srt: "sorted_wrt (<) (map key cs)"
    and w: "map_of bm m = Some w"
  shows "\<forall>c \<in> set cs. report_month c = m \<longrightarrow>
           modified_at_epoch c < modified_at_epoch w \<or>
           (modified_at_epoch c = modified_at_epoch w \<and> key w \<le> key c)"
proof (intro ballI impI)
  fix c assume c: "c \<in> set cs" and mc: "report_month c = m"
  from by_month_loop_winner [OF loop w] obtain k where k: "k < length cs" "cs ! k = w"
    and le: "\<forall>i<length cs. report_month (cs ! i) = m \<longrightarrow>
            modified_at_epoch (cs ! i) \<le> modified_at_epoch w"
    and lt: "\<forall>i<k. report_month (cs ! i) = m \<longrightarrow>
            modified_at_epoch (cs ! i) < modified_at_epoch w"
    by blast
  from c obtain i where i: "i < length cs" "cs ! i = c" by (auto simp: in_set_conv_nth)
  from le i mc have le': "modified_at_epoch c \<le> modified_at_epoch w" by auto
  show "modified_at_epoch c < modified_at_epoch w \<or>
           (modified_at_epoch c = modified_at_epoch w \<and> key w \<le> key c)"
  proof (cases "modified_at_epoch c < modified_at_epoch w")
    case True
    then show ?thesis by simp
  next
    case False
    with le' have eq: "modified_at_epoch c = modified_at_epoch w" by simp
    have "\<not> i < k" using lt i mc False by auto
    then have "k \<le> i" by simp
    have "key w \<le> key c"
    proof (cases "k = i")
      case True
      with k i show ?thesis by simp
    next
      case False
      with \<open>k \<le> i\<close> have "k < i" by simp
      with srt i(1) have "key (cs ! k) < key (cs ! i)"
        by (simp add: sorted_wrt_iff_nth_less)
      with k i show ?thesis by simp
    qed
    with eq show ?thesis by simp
  qed
qed

text \<open>The number of rejection records for a file.\<close>

lemma rejections_of_append:
  "length (filter (\<lambda>r. json_get r ''file'' JNull = Inr (JStr p)) (sk @ [rejection q n])) =
     length (filter (\<lambda>r. json_get r ''file'' JNull = Inr (JStr p)) sk) + (if q = p then 1 else 0)"
  by (simp add: rejection_def json_get_def)

lemma by_month_loop_counts:
  assumes loop: "by_month_loop cs [] sk0 = (bm, sk)"
    and dist: "distinct (map path cs)"
  shows "length (filter (\<lambda>r. json_get r ''file'' JNull = Inr (JStr p)) sk) =
         length (filter (\<lambda>r. json_get r ''file'' JNull = Inr (JStr p)) sk0) +
         (if p \<in> path ` set cs \<and> \<not> (\<exists>c. map_of bm (report_month c) = Some c \<and> path c = p)
          then 1 else 0)"
  using loop dist
proof (induction cs arbitrary: bm sk rule: rev_induct)
  case Nil
  then show ?case by simp
next
  case (snoc x xs)
  define cnt where "cnt = (\<lambda>l. length (filter (\<lambda>r. json_get r ''file'' JNull = Inr (JStr p)) l))"
  obtain bm1 sk1 where l: "by_month_loop xs [] sk0 = (bm1, sk1)" by fastforce
  from snoc.prems(1) l have s: "by_month_loop [x] bm1 sk1 = (bm, sk)"
    by (simp add: by_month_loop_append)
  from snoc.prems(2) have dxs: "distinct (map path xs)" and xnew: "path x \<notin> path ` set xs"
    by auto
  note vals = by_month_loop_values [OF l]
  have IH: "cnt sk1 = cnt sk0 +
         (if p \<in> path ` set xs \<and> \<not> (\<exists>c. map_of bm1 (report_month c) = Some c \<and> path c = p)
          then 1 else 0)"
    unfolding cnt_def by (rule snoc.IH [OF l dxs])
  have inj: "\<And>a b. a \<in> set xs \<Longrightarrow> b \<in> set xs \<Longrightarrow> path a = path b \<Longrightarrow> a = b"
    using dxs by (meson distinct_map inj_onD)
  have app: "\<And>q n. cnt (sk1 @ [rejection q n]) = cnt sk1 + (if q = p then 1 else 0)"
    unfolding cnt_def by (rule rejections_of_append)
  have goal: "cnt sk = cnt sk0 +
         (if p \<in> path ` set (xs @ [x]) \<and>
             \<not> (\<exists>c. map_of bm (report_month c) = Some c \<and> path c = p)
          then 1 else 0)"
  proof (cases "map_of bm1 (report_month x)")
    case None
    with s have bm: "bm = AList.update (report_month x) x bm1" and sk: "sk = sk1" by simp_all
    have W: "\<And>c. map_of bm (report_month c) = Some c \<longleftrightarrow>
                c = x \<or> map_of bm1 (report_month c) = Some c"
      unfolding bm using None by (auto simp: update_conv')
    show ?thesis
    proof (cases "p = path x")
      case True
      have "\<not> (\<exists>c. map_of bm1 (report_month c) = Some c \<and> path c = p)"
        using vals True xnew by (metis imageI)
      with True xnew IH W show ?thesis unfolding sk by auto
    next
      case False
      then have "(\<exists>c. map_of bm (report_month c) = Some c \<and> path c = p) \<longleftrightarrow>
                 (\<exists>c. map_of bm1 (report_month c) = Some c \<and> path c = p)"
        using W by auto
      with False IH show ?thesis unfolding sk by auto
    qed
  next
    case (Some existing)
    from vals [OF Some] have ex: "existing \<in> set xs" "report_month existing = report_month x"
      by simp_all
    then have pex: "path existing \<noteq> path x" using xnew by (metis imageI)
    show ?thesis
    proof (cases "modified_at_epoch x > modified_at_epoch existing")
      case True
      with s Some have bm: "bm = AList.update (report_month x) x bm1"
        and sk: "sk = sk1 @ [rejection (path existing)
                    (''duplicate_month_replaced_by_newer_file:'' @ file_name x)]"
        by simp_all
      have W: "\<And>c. map_of bm (report_month c) = Some c \<longleftrightarrow>
                c = x \<or> (report_month c \<noteq> report_month x \<and> map_of bm1 (report_month c) = Some c)"
        unfolding bm by (auto simp: update_conv')
      have W1: "\<And>c. map_of bm1 (report_month c) = Some c \<Longrightarrow>
                report_month c = report_month x \<Longrightarrow> c = existing"
        using Some by simp
      show ?thesis
      proof (cases "p = path x")
        case px: True
        have "\<not> (\<exists>c. map_of bm1 (report_month c) = Some c \<and> path c = p)"
          using vals px xnew by (metis imageI)
        moreover have "\<exists>c. map_of bm (report_month c) = Some c \<and> path c = p"
          using W px by blast
        ultimately show ?thesis
          using px xnew IH pex unfolding sk app by auto
      next
        case npx: False
        show ?thesis
        proof (cases "p = path existing")
          case pe: True
          have "map_of bm1 (report_month existing) = Some existing \<and> path existing = p"
            using Some ex pe by simp
          then have w1: "\<exists>c. map_of bm1 (report_month c) = Some c \<and> path c = p"
            by (rule exI)
          have "\<not> (\<exists>c. map_of bm (report_month c) = Some c \<and> path c = p)"
          proof
            assume "\<exists>c. map_of bm (report_month c) = Some c \<and> path c = p"
            then obtain c where c: "map_of bm (report_month c) = Some c" "path c = p" by blast
            with W npx have c1: "report_month c \<noteq> report_month x"
              "map_of bm1 (report_month c) = Some c" by auto
            from vals [OF c1(2)] have "c \<in> set xs" by simp
            with inj [OF this ex(1)] c(2) pe have "c = existing" by simp
            with c1(1) ex(2) show False by simp
          qed
          moreover have "p \<in> path ` set (xs @ [x])" using ex(1) pe by auto
          ultimately show ?thesis using IH w1 pe unfolding sk app by auto
        next
          case npe: False
          have "(\<exists>c. map_of bm (report_month c) = Some c \<and> path c = p) \<longleftrightarrow>
                (\<exists>c. map_of bm1 (report_month c) = Some c \<and> path c = p)"
          proof
            assume "\<exists>c. map_of bm (report_month c) = Some c \<and> path c = p"
            then show "\<exists>c. map_of bm1 (report_month c) = Some c \<and> path c = p"
              using W npx by auto
          next
            assume "\<exists>c. map_of bm1 (report_month c) = Some c \<and> path c = p"
            then obtain c where c: "map_of bm1 (report_month c) = Some c" "path c = p" by blast
            have "report_month c \<noteq> report_month x"
              using W1 [OF c(1)] c(2) npe by auto
            with c W show "\<exists>c. map_of bm (report_month c) = Some c \<and> path c = p" by blast
          qed
          with IH npx npe show ?thesis unfolding sk app by auto
        qed
      qed
    next
      case False
      with s Some have bm: "bm = bm1"
        and sk: "sk = sk1 @ [rejection (path x)
                    (''duplicate_month_older_than:'' @ file_name existing)]"
        by simp_all
      show ?thesis
      proof (cases "p = path x")
        case True
        have "\<not> (\<exists>c. map_of bm1 (report_month c) = Some c \<and> path c = p)"
          using vals True xnew by (metis imageI)
        with True xnew IH show ?thesis unfolding sk app bm by auto
      next
        case False
        with IH show ?thesis unfolding sk app bm by auto
      qed
    qed
  qed
  then show ?case unfolding cnt_def .
qed

lemma path_parts_nonempty: "path_parts p \<noteq> []"
  by (induction p) (auto split: list.splits)

lemma path_parts_inj: "path_parts p = path_parts q \<Longrightarrow> p = q"
proof (induction p arbitrary: q)
  case Nil
  show ?case
  proof (cases q)
    case Nil
    then show ?thesis by simp
  next
    case (Cons c cs)
    with Nil.prems path_parts_nonempty [of cs] show ?thesis
      by (auto split: if_splits list.splits)
  qed
next
  case (Cons c cs)
  show ?case
  proof (cases q)
    case Nil
    with Cons.prems path_parts_nonempty [of cs] show ?thesis
      by (auto split: if_splits list.splits)
  next
    case q: (Cons c' cs')
    obtain x xs where pc: "path_parts cs = x # xs"
      using path_parts_nonempty [of cs] by (cases "path_parts cs") auto
    obtain x' xs' where pc': "path_parts cs' = x' # xs'"
      using path_parts_nonempty [of cs'] by (cases "path_parts cs'") auto
    from Cons.prems q pc pc' have "c = c' \<and> path_parts cs = path_parts cs'"
      by (auto split: if_splits)
    with Cons.IH [of cs'] q show ?thesis by simp
  qed
qed

lemma dir_entries_iff:
  "n \<in> set (dir_entries fs d) \<longleftrightarrow>
     n \<noteq> [] \<and> (\<exists>p f rest. (p, f) \<in> set fs \<and> p = d @ ''/'' @ rest \<and>
                   n = takeWhile (\<lambda>c. c \<noteq> CHR ''/'') rest)"
proof -
  define g where "g = (\<lambda>x :: path \<times> file_node. case x of (p, f) \<Rightarrow>
          case strip_prefix (d @ ''/'') p of None \<Rightarrow> []
          | Some rest \<Rightarrow> [takeWhile (\<lambda>c. c \<noteq> CHR ''/'') rest])"
  have g: "\<And>p f. n \<in> set (g (p, f)) \<longleftrightarrow>
      (\<exists>rest. p = (d @ ''/'') @ rest \<and> n = takeWhile (\<lambda>c. c \<noteq> CHR ''/'') rest)"
  proof -
    fix p f
    show "n \<in> set (g (p, f)) \<longleftrightarrow>
      (\<exists>rest. p = (d @ ''/'') @ rest \<and> n = takeWhile (\<lambda>c. c \<noteq> CHR ''/'') rest)"
    proof (cases "strip_prefix (d @ ''/'') p")
      case None
      then have "\<And>rest. p \<noteq> (d @ ''/'') @ rest"
        using strip_prefix_Some_iff [of "d @ ''/''" p] by auto
      with None show ?thesis by (simp add: g_def)
    next
      case (Some rest)
      then have "p = (d @ ''/'') @ rest" by (simp only: strip_prefix_Some_iff)
      with Some show ?thesis by (auto simp: g_def)
    qed
  qed
  have "n \<in> set (dir_entries fs d) \<longleftrightarrow> n \<noteq> [] \<and> (\<exists>x \<in> set fs. n \<in> set (g x))"
    unfolding dir_entries_def g_def by auto
  also have "(\<exists>x \<in> set fs. n \<in> set (g x)) \<longleftrightarrow>
      (\<exists>p f. (p, f) \<in> set fs \<and> n \<in> set (g (p, f)))"
    by auto
  also have "\<dots> \<longleftrightarrow> (\<exists>p f rest. (p, f) \<in> set fs \<and> p = d @ ''/'' @ rest \<and>
                   n = takeWhile (\<lambda>c. c \<noteq> CHR ''/'') rest)"
    unfolding g by auto
  finally show ?thesis .
qed

lemma dir_entries_no_slash: "n \<in> set (dir_entries fs d) \<Longrightarrow> CHR ''/'' \<notin> set n"
  unfolding dir_entries_iff by (auto dest: set_takeWhileD)

lemma dir_entries_distinct: "distinct (dir_entries fs d)"
  by (simp add: dir_entries_def)

lemma dir_entries_file:
  assumes "map_of fs (d @ CHR ''/'' # n) = Some f" and "n \<noteq> []" and "CHR ''/'' \<notin> set n"
  shows "n \<in> set (dir_entries fs d)"
proof -
  from assms(1) have "(d @ ''/'' @ n, f) \<in> set fs" by (auto dest: map_of_SomeD)
  moreover have "takeWhile (\<lambda>c. c \<noteq> CHR ''/'') n = n"
    using assms(3) by (auto simp: takeWhile_eq_all_conv)
  ultimately show ?thesis unfolding dir_entries_iff using assms(2) by metis
qed

lemma path_name_append:
  assumes "CHR ''/'' \<notin> set n"
  shows "path_name (b @ CHR ''/'' # n) = n"
proof -
  have "takeWhile (\<lambda>c. c \<noteq> CHR ''/'') (rev n @ CHR ''/'' # rev b) = rev n"
    using assms by (subst takeWhile_append2) auto
  then show ?thesis by (simp add: path_name_def)
qed

lemma path_parent_append:
  assumes "CHR ''/'' \<notin> set n"
  shows "path_parent (b @ CHR ''/'' # n) = b"
proof -
  have "dropWhile (\<lambda>c. c \<noteq> CHR ''/'') (rev n @ CHR ''/'' # rev b) = CHR ''/'' # rev b"
    using assms by (subst dropWhile_append2) auto
  then show ?thesis by (simp add: path_parent_def)
qed

lemma glob_xlsx_iff:
  "p \<in> set (glob_xlsx fs d) \<longleftrightarrow>
     (\<exists>n. p = d @ CHR ''/'' # n \<and> n \<in> set (dir_entries fs d) \<and> ends_with ''.xlsx'' n)"
  unfolding glob_xlsx_def by auto

lemma glob_xlsx_name:
  assumes "p \<in> set (glob_xlsx fs d)"
  shows "p = d @ CHR ''/'' # path_name p \<and> CHR ''/'' \<notin> set (path_name p) \<and>
         ends_with ''.xlsx'' (path_name p)"
proof -
  from assms obtain n where n: "p = d @ CHR ''/'' # n" "n \<in> set (dir_entries fs d)"
    "ends_with ''.xlsx'' n" unfolding glob_xlsx_iff by blast
  from n(2) have ns: "CHR ''/'' \<notin> set n" by (rule dir_entries_no_slash)
  then have "path_name p = n" unfolding n(1) by (rule path_name_append)
  with n ns show ?thesis by simp
qed

lemma glob_xlsx_distinct: "distinct (glob_xlsx fs d)"
proof -
  have "inj_on (\<lambda>n. d @ ''/'' @ n) (set (filter (ends_with ''.xlsx'') (dir_entries fs d)))"
    by (rule inj_onI) simp
  then have "distinct (map (\<lambda>n. d @ ''/'' @ n) (filter (ends_with ''.xlsx'') (dir_entries fs d)))"
    by (simp add: distinct_map dir_entries_distinct)
  then show ?thesis unfolding glob_xlsx_def by simp
qed

lemma glob_xlsx_sorted: "sorted (map path_parts (glob_xlsx fs d))"
  by (simp add: glob_xlsx_def)

lemma glob_xlsx_strict_sorted: "sorted_wrt (<) (map path_parts (glob_xlsx fs d))"
proof -
  have "inj_on path_parts (set (glob_xlsx fs d))"
    by (rule inj_onI) (rule path_parts_inj)
  with glob_xlsx_distinct [of fs d] have "distinct (map path_parts (glob_xlsx fs d))"
    by (simp add: distinct_map)
  with glob_xlsx_sorted [of fs d] show ?thesis
    by (simp add: strict_sorted_iff)
qed

text \<open>The candidate that the first loop builds for a path with a report month.\<close>

lemma collect_candidates_closed:
  "collect_candidates e fs xs cands sk =
     (cands @ concat (map (\<lambda>p. case parse_report_month e p of
                              Inl err \<Rightarrow> []
                            | Inr m \<Rightarrow>
                                [\<lparr>path = p, file_name = path_name p, report_month = m,
                                  size_bytes = stat_size e fs p,
                                  modified_at_utc = iso_of_epoch e (stat_mtime e fs p),
                                  modified_at_epoch = stat_mtime e fs p\<rparr>]) xs),
      sk @ concat (map (\<lambda>p. case parse_report_month e p of
                           Inl err \<Rightarrow> [rejection p (''invalid_report_month: '' @ str_error err)]
                         | Inr m \<Rightarrow> []) xs))"
  by (induction xs arbitrary: cands sk) (auto split: sum.splits)

lemma collect_candidates_paths:
  "collect_candidates e fs xs [] [] = (cands, sk) \<Longrightarrow>
     map path cands = filter (\<lambda>p. \<exists>m. parse_report_month e p = Inr m) xs"
  unfolding collect_candidates_closed
  by (induction xs arbitrary: cands sk) (auto split: sum.splits)

lemma collect_candidates_member_iff:
  assumes "collect_candidates e fs xs [] [] = (cands, sk)"
  shows "c \<in> set cands \<longleftrightarrow>
     (\<exists>p \<in> set xs. \<exists>m. parse_report_month e p = Inr m \<and>
        c = \<lparr>path = p, file_name = path_name p, report_month = m,
             size_bytes = stat_size e fs p,
             modified_at_utc = iso_of_epoch e (stat_mtime e fs p),
             modified_at_epoch = stat_mtime e fs p\<rparr>)"
proof -
  from assms have cands: "cands = concat (map (\<lambda>p. case parse_report_month e p of
                              Inl err \<Rightarrow> []
                            | Inr m \<Rightarrow>
                                [\<lparr>path = p, file_name = path_name p, report_month = m,
                                  size_bytes = stat_size e fs p,
                                  modified_at_utc = iso_of_epoch e (stat_mtime e fs p),
                                  modified_at_epoch = stat_mtime e fs p\<rparr>]) xs)"
    unfolding collect_candidates_closed by simp
  show ?thesis unfolding cands by (auto split: sum.splits)
qed

lemma collect_candidates_member:
  assumes "collect_candidates e fs xs [] [] = (cands, sk)" and "c \<in> set cands"
  shows "path c \<in> set xs \<and> parse_report_month e (path c) = Inr (report_month c) \<and>
         file_name c = path_name (path c) \<and> modified_at_epoch c = stat_mtime e fs (path c) \<and>
         size_bytes c = stat_size e fs (path c) \<and>
         modified_at_utc c = iso_of_epoch e (stat_mtime e fs (path c))"
  using assms(2) unfolding collect_candidates_member_iff [OF assms(1)] by auto

lemma collect_candidates_skipped:
  assumes "collect_candidates e fs xs [] [] = (cands, sk)" and "r \<in> set sk"
  shows "\<exists>p. p \<in> set xs \<and> re_search_month e (path_name p) = None \<and>
       r = rejection p (''invalid_report_month: Could not parse report month from file name: ''
                          @ path_name p)"
proof -
  define g where "g = (\<lambda>p. case parse_report_month e p of
                           Inl err \<Rightarrow> [rejection p (''invalid_report_month: '' @ str_error err)]
                         | Inr m \<Rightarrow> [])"
  from assms(1) have sk: "sk = concat (map g xs)"
    unfolding collect_candidates_closed g_def by simp
  from assms(2) obtain p where p: "p \<in> set xs" "r \<in> set (g p)"
    unfolding sk by auto
  from p(2) obtain err where err: "parse_report_month e p = Inl err"
    and r: "r = rejection p (''invalid_report_month: '' @ str_error err)"
    unfolding g_def by (cases "parse_report_month e p") simp_all
  from err have n: "re_search_month e (path_name p) = None"
    and e: "err = ValueError (''Could not parse report month from file name: '' @ path_name p)"
    unfolding parse_report_month_Inl_iff by simp_all
  have "r = rejection p (''invalid_report_month: Could not parse report month from file name: ''
                          @ path_name p)"
    unfolding r e by simp
  with p(1) n show ?thesis by blast
qed

lemma collect_candidates_counts:
  assumes cc: "collect_candidates e fs xs [] [] = (cands, sk)" and d: "distinct xs"
  shows "length (filter (\<lambda>r. json_get r ''file'' JNull = Inr (JStr p)) sk) =
         (if p \<in> set xs \<and> (\<forall>m. parse_report_month e p \<noteq> Inr m) then 1 else 0)"
proof -
  from cc have sk: "sk = concat (map (\<lambda>p. case parse_report_month e p of
                           Inl err \<Rightarrow> [rejection p (''invalid_report_month: '' @ str_error err)]
                         | Inr m \<Rightarrow> []) xs)"
    unfolding collect_candidates_closed by simp
  show ?thesis unfolding sk using d
  proof (induction xs)
    case Nil
    then show ?case by simp
  next
    case (Cons x xs)
    then have IH: "length (filter (\<lambda>r. json_get r ''file'' JNull = Inr (JStr p))
        (concat (map (\<lambda>p. case parse_report_month e p of
                           Inl err \<Rightarrow> [rejection p (''invalid_report_month: '' @ str_error err)]
                         | Inr m \<Rightarrow> []) xs))) =
         (if p \<in> set xs \<and> (\<forall>m. parse_report_month e p \<noteq> Inr m) then 1 else 0)"
      and nx: "x \<notin> set xs" by simp_all
    show ?case
    proof (cases "parse_report_month e x")
      case (Inl err)
      then have "\<forall>m. parse_report_month e x \<noteq> Inr m" by simp
      with Inl IH nx show ?thesis
        by (auto simp: rejection_def json_get_def)
    next
      case (Inr m)
      with IH nx show ?thesis by auto
    qed
  qed
qed

lemma discover_input_files_unfold:
  assumes "collect_candidates e fs (glob_xlsx fs d) [] [] = (cands, sk0)"
    and "discover_input_files e fs d = (selected, skipped)"
  obtains bm where "by_month_loop cands [] sk0 = (bm, skipped)"
    and "selected = map snd (sort_key fst bm)"
proof -
  obtain bm sk where l: "by_month_loop cands [] sk0 = (bm, sk)" by fastforce
  with assms have "selected = map snd (sort_key fst bm)" "skipped = sk"
    by (simp_all add: discover_input_files_def)
  with l that show thesis by blast
qed

lemma selected_iff:
  assumes "by_month_loop cands [] sk0 = (bm, sk)"
  shows "c \<in> set (map snd (sort_key fst bm)) \<longleftrightarrow> map_of bm (report_month c) = Some c"
proof
  assume "c \<in> set (map snd (sort_key fst bm))"
  then obtain m where "(m, c) \<in> set bm" by auto
  moreover have "distinct (map fst bm)"
    using by_month_loop_distinct [OF assms] by simp
  ultimately have mo: "map_of bm m = Some c" by simp
  from by_month_loop_winner [OF assms mo] have "report_month c = m" by blast
  with mo show "map_of bm (report_month c) = Some c" by simp
next
  assume "map_of bm (report_month c) = Some c"
  then have "(report_month c, c) \<in> set bm" by (rule map_of_SomeD)
  then show "c \<in> set (map snd (sort_key fst bm))" by force
qed

lemma selected_of_month:
  assumes loop: "by_month_loop cands [] sk0 = (bm, sk)" and w: "map_of bm m = Some w"
  shows "filter (\<lambda>c. report_month c = m) (map snd (sort_key fst bm)) = [w]"
proof -
  have d: "distinct (map fst bm)" using by_month_loop_distinct [OF loop] by simp
  have val: "\<forall>x \<in> set bm. report_month (snd x) = fst x"
  proof
    fix x assume "x \<in> set bm"
    then have "(fst x, snd x) \<in> set bm" by simp
    with d have "map_of bm (fst x) = Some (snd x)" by simp
    from by_month_loop_values [OF loop this] show "report_month (snd x) = fst x" by simp
  qed
  have "filter (\<lambda>c. report_month c = m) (map snd (sort_key fst bm)) =
        map snd (filter (\<lambda>x. report_month (snd x) = m) (sort_key fst bm))"
    by (simp add: filter_map comp_def)
  also have "filter (\<lambda>x. report_month (snd x) = m) (sort_key fst bm) =
        filter (\<lambda>x. fst x = m) (sort_key fst bm)"
    using val by (intro filter_cong) auto
  also have "\<dots> = sort_key fst (filter (\<lambda>x. fst x = m) bm)"
    by (simp add: filter_sort)
  also have "filter (\<lambda>x. fst x = m) bm = [(m, w)]"
    by (rule filter_key_distinct [OF d w])
  finally show ?thesis by simp
qed

lemma glob_raw_iff:
  "p \<in> set (glob_raw fs b) \<longleftrightarrow>
     (\<exists>dn. p = b @ ''/'' @ dn @ ''/sales_monthly_v1.parquet'' \<and>
        dn \<in> set (dir_entries fs b) \<and> strip_prefix ''report_month_'' dn \<noteq> None \<and>
        ''sales_monthly_v1.parquet'' \<in> set (dir_entries fs (b @ ''/'' @ dn)))"
  unfolding glob_raw_def by auto

lemma glob_raw_shape:
  assumes "p \<in> set (glob_raw fs b)"
  shows "\<exists>m. p = b @ ''/report_month_'' @ m @ ''/sales_monthly_v1.parquet'' \<and>
             CHR ''/'' \<notin> set m"
proof -
  from assms obtain dn where p: "p = b @ ''/'' @ dn @ ''/sales_monthly_v1.parquet''"
    and dn: "dn \<in> set (dir_entries fs b)" and pre: "strip_prefix ''report_month_'' dn \<noteq> None"
    unfolding glob_raw_iff by blast
  from pre obtain m where m: "dn = ''report_month_'' @ m"
    by (auto simp: strip_prefix_Some_iff)
  from dn have "CHR ''/'' \<notin> set dn" by (rule dir_entries_no_slash)
  with m have nos: "CHR ''/'' \<notin> set m" by simp
  have "p = b @ ''/report_month_'' @ m @ ''/sales_monthly_v1.parquet''"
    unfolding p m by simp
  with nos show ?thesis by blast
qed

lemma raw_month_of_path:
  assumes "CHR ''/'' \<notin> set m"
  shows "parse_month_from_partition_dir
           (path_parent (b @ ''/report_month_'' @ m @ ''/sales_monthly_v1.parquet'')) = Inr m"
proof -
  have "path_parent ((b @ ''/report_month_'' @ m) @ CHR ''/'' # ''sales_monthly_v1.parquet'') =
        b @ ''/report_month_'' @ m"
    by (rule path_parent_append) simp
  then have pp: "path_parent (b @ ''/report_month_'' @ m @ ''/sales_monthly_v1.parquet'') =
        b @ CHR ''/'' # (''report_month_'' @ m)"
    by simp
  have pn: "path_name (b @ CHR ''/'' # (''report_month_'' @ m)) = ''report_month_'' @ m"
    using assms by (intro path_name_append) simp
  have "strip_prefix ''report_month_'' (''report_month_'' @ m) = Some m"
    by (simp only: strip_prefix_Some_iff)
  with pp pn show ?thesis
    by (simp only: parse_month_from_partition_dir_def option.case)
qed

lemma update_new: "map_of al k = None \<Longrightarrow> AList.update k v al = al @ [(k, v)]"
  by (induction al) (auto split: if_splits)

lemma raw_partitions_loop_no_duplicates:
  assumes "\<forall>x \<in> set xs. \<exists>m. CHR ''/'' \<notin> set m \<and>
             x = b @ ''/report_month_'' @ m @ ''/sales_monthly_v1.parquet'' \<and>
             map_of sel0 m = None"
    and "distinct xs"
  shows "raw_partitions_loop e fs xs sel0 sk0 =
     Inr (sel0 @ map (\<lambda>p.
                  (case parse_month_from_partition_dir (path_parent p) of
                     Inr m \<Rightarrow> m | Inl err \<Rightarrow> [],
                   \<lparr>raw_path = p, mtime = stat_mtime e fs p,
                    raw_size_bytes = stat_size e fs p\<rparr>)) xs,
          sk0)"
  using assms
proof (induction xs arbitrary: sel0)
  case Nil
  then show ?case by simp
next
  case (Cons p xs)
  from Cons.prems(1) obtain m where m: "CHR ''/'' \<notin> set m"
    "p = b @ ''/report_month_'' @ m @ ''/sales_monthly_v1.parquet''" "map_of sel0 m = None"
    by auto
  have pm: "parse_month_from_partition_dir (path_parent p) = Inr m"
    unfolding m(2) by (rule raw_month_of_path [OF m(1)])
  define cand where "cand = \<lparr>raw_path = p, mtime = stat_mtime e fs p,
                              raw_size_bytes = stat_size e fs p\<rparr>"
  have step: "raw_partitions_loop e fs (p # xs) sel0 sk0 =
      raw_partitions_loop e fs xs (sel0 @ [(m, cand)]) sk0"
    using pm m(3) by (simp add: update_new cand_def)
  have pre: "\<forall>y \<in> set xs. \<exists>m'. CHR ''/'' \<notin> set m' \<and>
             y = b @ ''/report_month_'' @ m' @ ''/sales_monthly_v1.parquet'' \<and>
             map_of (sel0 @ [(m, cand)]) m' = None"
  proof
    fix y assume y: "y \<in> set xs"
    with Cons.prems(1) obtain m' where m': "CHR ''/'' \<notin> set m'"
      "y = b @ ''/report_month_'' @ m' @ ''/sales_monthly_v1.parquet''" "map_of sel0 m' = None"
      by auto
    from Cons.prems(2) y have "y \<noteq> p" by auto
    with m(2) m'(2) have "m' \<noteq> m" by auto
    with m'(3) have "map_of (sel0 @ [(m, cand)]) m' = None"
      by (simp add: map_add_def)
    with m'(1,2) show "\<exists>m'. CHR ''/'' \<notin> set m' \<and>
             y = b @ ''/report_month_'' @ m' @ ''/sales_monthly_v1.parquet'' \<and>
             map_of (sel0 @ [(m, cand)]) m' = None"
      by blast
  qed
  from Cons.prems(2) have "distinct xs" by simp
  from Cons.IH [OF pre this] step pm show ?case
    by (simp add: cand_def)
qed

lemma glob_raw_distinct: "distinct (glob_raw fs b)"
proof -
  let ?ds = "filter
             (\<lambda>d. strip_prefix ''report_month_'' d \<noteq> None \<and>
                  ''sales_monthly_v1.parquet'' \<in> set (dir_entries fs (b @ ''/'' @ d)))
             (dir_entries fs b)"
  have "inj_on (\<lambda>d. b @ ''/'' @ d @ ''/sales_monthly_v1.parquet'') (set ?ds)"
    by (rule inj_onI) simp
  then have "distinct (map (\<lambda>d. b @ ''/'' @ d @ ''/sales_monthly_v1.parquet'') ?ds)"
    by (simp add: distinct_map dir_entries_distinct)
  then show ?thesis unfolding glob_raw_def by simp
qed

lemma discover_raw_partitions_closed:
  "discover_raw_partitions e fs root =
     Inr (map (\<lambda>p.
            (case parse_month_from_partition_dir (path_parent p) of
               Inr m \<Rightarrow> m | Inl err \<Rightarrow> [], p)) (glob_raw fs (raw_base root)), [])"
proof -
  have "\<forall>x \<in> set (glob_raw fs (raw_base root)). \<exists>m. CHR ''/'' \<notin> set m \<and>
             x = raw_base root @ ''/report_month_'' @ m @ ''/sales_monthly_v1.parquet'' \<and>
             map_of [] m = None"
  proof
    fix x assume "x \<in> set (glob_raw fs (raw_base root))"
    from glob_raw_shape [OF this] show "\<exists>m. CHR ''/'' \<notin> set m \<and>
             x = raw_base root @ ''/report_month_'' @ m @ ''/sales_monthly_v1.parquet'' \<and>
             map_of [] m = None"
      by auto
  qed
  from raw_partitions_loop_no_duplicates [OF this glob_raw_distinct]
  show ?thesis
    by (simp add: discover_raw_partitions_def comp_def case_prod_unfold)
qed

lemma discover_raw_partitions_distinct_months:
  assumes "discover_raw_partitions e fs root = Inr (mapping, skipped)"
  shows "distinct (map fst mapping)"
proof -
  let ?G = "glob_raw fs (raw_base root)"
  let ?mo = "\<lambda>x. case parse_month_from_partition_dir (path_parent x) of
               Inr m \<Rightarrow> m | Inl err \<Rightarrow> []"
  from assms have "mapping = map (\<lambda>x. (?mo x, x)) ?G"
    by (simp add: discover_raw_partitions_closed)
  then have mp: "map fst mapping = map ?mo ?G"
    by (simp add: comp_def)
  have dG: "distinct ?G" by (rule glob_raw_distinct)
  have "inj_on ?mo (set ?G)"
  proof (rule inj_onI)
    fix x y assume x: "x \<in> set ?G" and y: "y \<in> set ?G" and eq: "?mo x = ?mo y"
    from glob_raw_shape [OF x] obtain m where m: "CHR ''/'' \<notin> set m"
      "x = raw_base root @ ''/report_month_'' @ m @ ''/sales_monthly_v1.parquet''" by blast
    from glob_raw_shape [OF y] obtain m' where m': "CHR ''/'' \<notin> set m'"
      "y = raw_base root @ ''/report_month_'' @ m' @ ''/sales_monthly_v1.parquet''" by blast
    have "?mo x = m" unfolding m(2) by (simp only: raw_month_of_path [OF m(1)] sum.case)
    moreover have "?mo y = m'" unfolding m'(2) by (simp only: raw_month_of_path [OF m'(1)] sum.case)
    ultimately have "m = m'" using eq by simp
    with m(2) m'(2) show "x = y" by simp
  qed
  with dG have "distinct (map ?mo ?G)" by (simp add: distinct_map)
  with mp show ?thesis by simp
qed

lemma raw_parquet_path_base:
  "raw_parquet_path root m = raw_base root @ ''/report_month_'' @ m @ ''/sales_monthly_v1.parquet''"
  by (simp add: raw_parquet_path_def raw_base_def)

lemma glob_raw_complete:
  assumes f: "map_of fs (b @ ''/report_month_'' @ m @ ''/sales_monthly_v1.parquet'') = Some f"
    and m: "CHR ''/'' \<notin> set m"
  shows "b @ ''/report_month_'' @ m @ ''/sales_monthly_v1.parquet'' \<in> set (glob_raw fs b)"
proof -
  define dn where "dn = ''report_month_'' @ m"
  define fname where "fname = ''sales_monthly_v1.parquet''"
  have pe: "b @ ''/report_month_'' @ m @ ''/sales_monthly_v1.parquet'' =
            b @ ''/'' @ dn @ ''/sales_monthly_v1.parquet''"
    unfolding dn_def by simp
  have pe2: "b @ ''/report_month_'' @ m @ ''/sales_monthly_v1.parquet'' =
            (b @ ''/'' @ dn) @ CHR ''/'' # fname"
    unfolding dn_def fname_def by simp
  have nd: "CHR ''/'' \<notin> set dn" unfolding dn_def using m by auto
  have dne: "dn \<noteq> []" unfolding dn_def by simp
  have nf: "CHR ''/'' \<notin> set fname" "fname \<noteq> []" unfolding fname_def by auto
  from f have mem: "(b @ ''/'' @ (dn @ CHR ''/'' # fname), f) \<in> set fs"
    unfolding pe2 by (auto dest: map_of_SomeD)
  have "takeWhile (\<lambda>c. c \<noteq> CHR ''/'') (dn @ CHR ''/'' # fname) = dn"
    using nd by (subst takeWhile_append2) auto
  with mem dne have d1: "dn \<in> set (dir_entries fs b)"
    unfolding dir_entries_iff by metis
  from f have "map_of fs ((b @ ''/'' @ dn) @ CHR ''/'' # fname) = Some f"
    unfolding pe2 .
  from dir_entries_file [OF this nf(2) nf(1)]
  have d2: "''sales_monthly_v1.parquet'' \<in> set (dir_entries fs (b @ ''/'' @ dn))"
    unfolding fname_def .
  have d3: "strip_prefix ''report_month_'' dn \<noteq> None"
    using strip_prefix_Some_iff [of "''report_month_''" dn m] unfolding dn_def by simp
  show ?thesis unfolding glob_raw_iff pe using d1 d2 d3 by blast
qed

lemma discover_input_files_reasons:
  assumes disc: "discover_input_files e fs d = (selected, skipped)" and r: "r \<in> set skipped"
  shows "(\<exists>p. p \<in> set (glob_xlsx fs d) \<and> re_search_month e (path_name p) = None \<and>
            r = rejection p
                  (''invalid_report_month: Could not parse report month from file name: '' @
                   path_name p)) \<or>
         (\<exists>pa pb m. pa \<in> set (glob_xlsx fs d) \<and> pb \<in> set (glob_xlsx fs d) \<and>
            parse_report_month e pa = Inr m \<and> parse_report_month e pb = Inr m \<and>
            (r = rejection pa (''duplicate_month_replaced_by_newer_file:'' @ path_name pb) \<and>
               stat_mtime e fs pa < stat_mtime e fs pb \<or>
             r = rejection pa (''duplicate_month_older_than:'' @ path_name pb) \<and>
               stat_mtime e fs pa \<le> stat_mtime e fs pb))"
proof -
  obtain cands sk0 where cands: "collect_candidates e fs (glob_xlsx fs d) [] [] = (cands, sk0)"
    by fastforce
  from discover_input_files_unfold [OF cands disc] obtain bm
    where loop: "by_month_loop cands [] sk0 = (bm, skipped)" by blast
  from by_month_loop_reasons [OF loop r]
  consider (invalid) "r \<in> set sk0"
    | (dup) a b where "a \<in> set cands" "b \<in> set cands" "report_month a = report_month b"
        "r = rejection (path a) (''duplicate_month_replaced_by_newer_file:'' @ file_name b) \<and>
           modified_at_epoch a < modified_at_epoch b \<or>
         r = rejection (path a) (''duplicate_month_older_than:'' @ file_name b) \<and>
           modified_at_epoch a \<le> modified_at_epoch b"
    by blast
  then show ?thesis
  proof cases
    case invalid
    from collect_candidates_skipped [OF cands invalid] show ?thesis by (rule disjI1)
  next
    case dup
    from collect_candidates_member [OF cands dup(1)]
    have a: "path a \<in> set (glob_xlsx fs d)"
        "parse_report_month e (path a) = Inr (report_month a)"
        "modified_at_epoch a = stat_mtime e fs (path a)"
      by simp_all
    from collect_candidates_member [OF cands dup(2)]
    have b: "path b \<in> set (glob_xlsx fs d)"
        "parse_report_month e (path b) = Inr (report_month b)"
        "file_name b = path_name (path b)" "modified_at_epoch b = stat_mtime e fs (path b)"
      by simp_all
    from dup(3,4) a b
    have "path a \<in> set (glob_xlsx fs d) \<and> path b \<in> set (glob_xlsx fs d) \<and>
            parse_report_month e (path a) = Inr (report_month a) \<and>
            parse_report_month e (path b) = Inr (report_month a) \<and>
            (r = rejection (path a)
                   (''duplicate_month_replaced_by_newer_file:'' @ path_name (path b)) \<and>
               stat_mtime e fs (path a) < stat_mtime e fs (path b) \<or>
             r = rejection (path a) (''duplicate_month_older_than:'' @ path_name (path b)) \<and>
               stat_mtime e fs (path a) \<le> stat_mtime e fs (path b))"
      by auto
    then show ?thesis by blast
  qed
qed

text \<open>
  What discovery does with the paths of the scan: the selected candidates are among
  them, each with its month, and every scanned path that is not selected has exactly one
  rejection record; a month with a candidate has exactly one selected candidate, the
  first of the scan among those modified latest.
\<close>

lemma discover_input_files_partition:
  assumes disc: "discover_input_files e fs d = (selected, skipped)"
  shows "length (filter (\<lambda>r. json_get r ''file'' JNull = Inr (JStr x)) skipped) =
         (if x \<in> set (glob_xlsx fs d) \<and> x \<notin> path ` set selected then 1 else 0)"
    and "path ` set selected \<subseteq> set (glob_xlsx fs d)"
proof -
  obtain cands sk0 where cands: "collect_candidates e fs (glob_xlsx fs d) [] [] = (cands, sk0)"
    by fastforce
  from discover_input_files_unfold [OF cands disc] obtain bm
    where loop: "by_month_loop cands [] sk0 = (bm, skipped)"
      and sel: "selected = map snd (sort_key fst bm)" by blast
  have paths: "map path cands =
      filter (\<lambda>p. \<exists>m. parse_report_month e p = Inr m) (glob_xlsx fs d)"
    by (rule collect_candidates_paths [OF cands])
  then have pset: "path ` set cands =
      {p \<in> set (glob_xlsx fs d). \<exists>m. parse_report_month e p = Inr m}"
    by (metis set_filter set_map)
  have dist: "distinct (map path cands)"
    unfolding paths using glob_xlsx_distinct by simp
  have sel_iff: "\<And>c. c \<in> set selected \<longleftrightarrow> map_of bm (report_month c) = Some c"
    unfolding sel by (rule selected_iff [OF loop])
  have sub: "set selected \<subseteq> set cands"
    using by_month_loop_values [OF loop] sel_iff by blast
  then show S: "path ` set selected \<subseteq> set (glob_xlsx fs d)"
    using pset by blast
  have W: "(\<exists>c. map_of bm (report_month c) = Some c \<and> path c = x) \<longleftrightarrow>
           x \<in> path ` set selected"
    using sel_iff by auto
  note c1 = by_month_loop_counts [OF loop dist, of x]
  note c0 = collect_candidates_counts [OF cands glob_xlsx_distinct, of x]
  show "length (filter (\<lambda>r. json_get r ''file'' JNull = Inr (JStr x)) skipped) =
         (if x \<in> set (glob_xlsx fs d) \<and> x \<notin> path ` set selected then 1 else 0)"
  proof (cases "x \<in> set (glob_xlsx fs d)")
    case False
    with pset S have "x \<notin> path ` set cands" "x \<notin> path ` set selected" by auto
    with False c0 c1 show ?thesis by simp
  next
    case True
    show ?thesis
    proof (cases "\<exists>m. parse_report_month e x = Inr m")
      case False
      with pset have nc: "x \<notin> path ` set cands" by simp
      with sub have "x \<notin> path ` set selected" by auto
      with True False nc c0 c1 show ?thesis by simp
    next
      case parses: True
      with True pset have "x \<in> path ` set cands" by simp
      with True parses c0 c1 W show ?thesis by simp
    qed
  qed
qed

lemma discover_input_files_winner:
  assumes disc: "discover_input_files e fs d = (selected, skipped)"
    and p: "p \<in> set (glob_xlsx fs d)" and mp: "parse_report_month e p = Inr m"
  shows "\<exists>w \<in> set (glob_xlsx fs d). parse_report_month e w = Inr m \<and>
           (\<forall>x \<in> set (glob_xlsx fs d). parse_report_month e x = Inr m \<longrightarrow>
              stat_mtime e fs x < stat_mtime e fs w \<or>
              (stat_mtime e fs x = stat_mtime e fs w \<and> path_parts w \<le> path_parts x)) \<and>
           filter (\<lambda>c. report_month c = m) selected =
             [\<lparr>path = w, file_name = path_name w, report_month = m,
               size_bytes = stat_size e fs w,
               modified_at_utc = iso_of_epoch e (stat_mtime e fs w),
               modified_at_epoch = stat_mtime e fs w\<rparr>]"
proof -
  obtain cands sk0 where cands: "collect_candidates e fs (glob_xlsx fs d) [] [] = (cands, sk0)"
    by fastforce
  from discover_input_files_unfold [OF cands disc] obtain bm
    where loop: "by_month_loop cands [] sk0 = (bm, skipped)"
      and sel: "selected = map snd (sort_key fst bm)" by blast
  note mem = collect_candidates_member_iff [OF cands]
  define mk where "mk = (\<lambda>x. \<lparr>path = x, file_name = path_name x, report_month = m,
               size_bytes = stat_size e fs x,
               modified_at_utc = iso_of_epoch e (stat_mtime e fs x),
               modified_at_epoch = stat_mtime e fs x\<rparr>)"
  have mk_in: "\<And>x. x \<in> set (glob_xlsx fs d) \<Longrightarrow> parse_report_month e x = Inr m \<Longrightarrow>
      mk x \<in> set cands"
    unfolding mem mk_def by blast
  have mk_sel [simp]: "\<And>x. path (mk x) = x" "\<And>x. report_month (mk x) = m"
    "\<And>x. modified_at_epoch (mk x) = stat_mtime e fs x"
    by (simp_all add: mk_def)
  from mk_in [OF p mp] obtain i where i: "i < length cands" "cands ! i = mk p"
    by (auto simp: in_set_conv_nth)
  from by_month_loop_keys [OF loop i(1)] i(2) obtain w
    where w: "map_of bm m = Some w" by auto
  from by_month_loop_values [OF loop w] have wc: "w \<in> set cands" and wm: "report_month w = m"
    by simp_all
  from wc obtain pw m' where pw: "pw \<in> set (glob_xlsx fs d)"
    "parse_report_month e pw = Inr m'"
    "w = \<lparr>path = pw, file_name = path_name pw, report_month = m',
          size_bytes = stat_size e fs pw,
          modified_at_utc = iso_of_epoch e (stat_mtime e fs pw),
          modified_at_epoch = stat_mtime e fs pw\<rparr>"
    unfolding mem by blast
  from pw(3) wm have m': "m' = m" by simp
  from pw(3) m' have wmk: "w = mk pw" by (simp add: mk_def)
  have paths: "map path cands =
      filter (\<lambda>p. \<exists>m. parse_report_month e p = Inr m) (glob_xlsx fs d)"
    by (rule collect_candidates_paths [OF cands])
  have "sorted_wrt (\<lambda>x y. path_parts x < path_parts y) (glob_xlsx fs d)"
    using glob_xlsx_strict_sorted [of fs d] by (simp add: sorted_wrt_map)
  then have "sorted_wrt (\<lambda>x y. path_parts x < path_parts y) (map path cands)"
    unfolding paths by (rule sorted_wrt_filter)
  then have srt: "sorted_wrt (<) (map (\<lambda>c. path_parts (path c)) cands)"
    by (simp add: sorted_wrt_map)
  note win = by_month_winner_sorted [OF loop srt w]
  have best: "\<forall>x \<in> set (glob_xlsx fs d). parse_report_month e x = Inr m \<longrightarrow>
              stat_mtime e fs x < stat_mtime e fs pw \<or>
              (stat_mtime e fs x = stat_mtime e fs pw \<and> path_parts pw \<le> path_parts x)"
  proof (intro ballI impI)
    fix x assume x: "x \<in> set (glob_xlsx fs d)" "parse_report_month e x = Inr m"
    from win [rule_format, OF mk_in [OF x]] show "stat_mtime e fs x < stat_mtime e fs pw \<or>
              (stat_mtime e fs x = stat_mtime e fs pw \<and> path_parts pw \<le> path_parts x)"
      unfolding wmk by simp
  qed
  have "filter (\<lambda>c. report_month c = m) selected = [mk pw]"
    unfolding sel wmk [symmetric] by (rule selected_of_month [OF loop w])
  with pw(1,2) m' best show ?thesis unfolding mk_def by blast
qed

lemma append_less_list:
  fixes xs :: "'a::linorder list"
  shows "xs @ ys < xs @ zs \<longleftrightarrow> ys < zs"
  by (induction xs) simp_all

lemma path_parts_append:
  "path_parts (a @ CHR ''/'' # r) = path_parts a @ path_parts r"
proof (induction a)
  case Nil
  then show ?case by simp
next
  case (Cons c cs)
  obtain x xs where "path_parts cs = x # xs"
    using path_parts_nonempty [of cs] by (cases "path_parts cs") auto
  with Cons show ?case by simp
qed

lemma path_parts_name: "CHR ''/'' \<notin> set n \<Longrightarrow> path_parts n = [n]"
  by (induction n) auto

lemma glob_xlsx_order:
  assumes p: "p \<in> set (glob_xlsx fs d)" and q: "q \<in> set (glob_xlsx fs d)"
  shows "path_parts p < path_parts q \<longleftrightarrow> path_name p < path_name q"
proof -
  from glob_xlsx_name [OF p] have p': "p = d @ CHR ''/'' # path_name p"
    "CHR ''/'' \<notin> set (path_name p)" by simp_all
  from glob_xlsx_name [OF q] have q': "q = d @ CHR ''/'' # path_name q"
    "CHR ''/'' \<notin> set (path_name q)" by simp_all
  have "path_parts p = path_parts d @ [path_name p]"
    by (subst p'(1)) (simp only: path_parts_append path_parts_name [OF p'(2)])
  moreover have "path_parts q = path_parts d @ [path_name q]"
    by (subst q'(1)) (simp only: path_parts_append path_parts_name [OF q'(2)])
  ultimately show ?thesis by (simp add: append_less_list)
qed

text \<open>
  C5, as the code has it. The scan of \<^verbatim>\<open>discover_input_files\<close> goes through the entries
  \<^verbatim>\<open>*.xlsx\<close> in ascending order, which for the entries of one directory is the order of
  their names. Of two scanned paths \<open>p\<close> before \<open>q\<close> with the same report month, \<open>q\<close>
  beats \<open>p\<close> when it was modified strictly later, and \<open>p\<close> beats \<open>q\<close> otherwise (earlier
  or the same time stamp): the beaten one is not selected and has exactly one record in
  the rejection list. The other one is selected exactly when no path of the month beats
  it; the month has exactly one selected candidate, the first of the scan among those
  modified latest, built from what \<^verbatim>\<open>stat\<close> returns for it. Every scanned path that is
  not selected has exactly one rejection record, and no other path has one.
  In \<^verbatim>\<open>discover_raw_partitions\<close> no two candidates share a month: the month is the
  directory name, so its rejection list is empty.
\<close>

theorem discover_input_files_tie_break:
  assumes disc: "discover_input_files e fs d = (selected, skipped)"
    and p: "p \<in> set (glob_xlsx fs d)" and q: "q \<in> set (glob_xlsx fs d)"
    and mp: "parse_report_month e p = Inr m" and mq: "parse_report_month e q = Inr m"
    and pq: "path_parts p < path_parts q"
  shows "sorted_wrt (<) (map path_parts (glob_xlsx fs d)) \<and>
     path_name p < path_name q \<and>
     (if stat_mtime e fs p < stat_mtime e fs q then p else q) \<notin> path ` set selected \<and>
     length (filter (\<lambda>r. json_get r ''file'' JNull =
                          Inr (JStr (if stat_mtime e fs p < stat_mtime e fs q then p else q)))
               skipped) = 1 \<and>
     ((if stat_mtime e fs p < stat_mtime e fs q then q else p) \<in> path ` set selected \<longleftrightarrow>
        (\<forall>x \<in> set (glob_xlsx fs d). parse_report_month e x = Inr m \<longrightarrow>
           stat_mtime e fs x <
             stat_mtime e fs (if stat_mtime e fs p < stat_mtime e fs q then q else p) \<or>
           (stat_mtime e fs x =
              stat_mtime e fs (if stat_mtime e fs p < stat_mtime e fs q then q else p) \<and>
            path_parts (if stat_mtime e fs p < stat_mtime e fs q then q else p) \<le>
              path_parts x))) \<and>
     (\<exists>w \<in> set (glob_xlsx fs d). parse_report_month e w = Inr m \<and>
        (\<forall>x \<in> set (glob_xlsx fs d). parse_report_month e x = Inr m \<longrightarrow>
           stat_mtime e fs x < stat_mtime e fs w \<or>
           (stat_mtime e fs x = stat_mtime e fs w \<and> path_parts w \<le> path_parts x)) \<and>
        filter (\<lambda>c. report_month c = m) selected =
          [\<lparr>path = w, file_name = path_name w, report_month = m,
            size_bytes = stat_size e fs w,
            modified_at_utc = iso_of_epoch e (stat_mtime e fs w),
            modified_at_epoch = stat_mtime e fs w\<rparr>]) \<and>
     (\<forall>x. length (filter (\<lambda>r. json_get r ''file'' JNull = Inr (JStr x)) skipped) =
            (if x \<in> set (glob_xlsx fs d) \<and> x \<notin> path ` set selected then 1 else 0)) \<and>
     path ` set selected \<subseteq> set (glob_xlsx fs d) \<and>
     (\<exists>mapping. discover_raw_partitions e' fs' root = Inr (mapping, []) \<and>
        distinct (map fst mapping))"
proof -
  define T where "T = stat_mtime e fs"
  define L where "L = (if T p < T q then p else q)"
  define PW where "PW = (if T p < T q then q else p)"
  define G where "G = glob_xlsx fs d"
  define beats_all where "beats_all = (\<lambda>y. \<forall>x \<in> set G. parse_report_month e x = Inr m \<longrightarrow>
           T x < T y \<or> (T x = T y \<and> path_parts y \<le> path_parts x))"
  have LG: "L \<in> set G" "parse_report_month e L = Inr m"
    and PWG: "PW \<in> set G" "parse_report_month e PW = Inr m"
    unfolding L_def PW_def G_def using p q mp mq by auto
  from discover_input_files_winner [OF disc p mp] obtain w where
    w: "w \<in> set G" "parse_report_month e w = Inr m" and best: "beats_all w"
    and sel: "filter (\<lambda>c. report_month c = m) selected =
          [\<lparr>path = w, file_name = path_name w, report_month = m,
            size_bytes = stat_size e fs w,
            modified_at_utc = iso_of_epoch e (T w),
            modified_at_epoch = T w\<rparr>]"
    unfolding beats_all_def T_def G_def by blast
  note part = discover_input_files_partition [OF disc]
  have members: "\<And>c. c \<in> set selected \<Longrightarrow>
      parse_report_month e (path c) = Inr (report_month c)"
  proof -
    fix c assume c: "c \<in> set selected"
    obtain cands sk0 where cands: "collect_candidates e fs (glob_xlsx fs d) [] [] = (cands, sk0)"
      by fastforce
    from discover_input_files_unfold [OF cands disc] obtain bm
      where loop: "by_month_loop cands [] sk0 = (bm, skipped)"
        and s: "selected = map snd (sort_key fst bm)" by blast
    from c have "map_of bm (report_month c) = Some c"
      unfolding s by (simp only: selected_iff [OF loop])
    from by_month_loop_values [OF loop this] have "c \<in> set cands" by simp
    from collect_candidates_member [OF cands this]
    show "parse_report_month e (path c) = Inr (report_month c)" by simp
  qed
  have sel_path: "\<And>y. parse_report_month e y = Inr m \<Longrightarrow>
      y \<in> path ` set selected \<longleftrightarrow> y = w"
  proof -
    fix y assume y: "parse_report_month e y = Inr m"
    show "y \<in> path ` set selected \<longleftrightarrow> y = w"
    proof
      assume "y \<in> path ` set selected"
      then obtain c where c: "c \<in> set selected" "path c = y" by auto
      from members [OF c(1)] c(2) y have "report_month c = m" by simp
      with c(1) have "c \<in> set (filter (\<lambda>c. report_month c = m) selected)" by simp
      then show "y = w" unfolding sel using c(2) by auto
    next
      assume "y = w"
      have "\<lparr>path = w, file_name = path_name w, report_month = m,
            size_bytes = stat_size e fs w,
            modified_at_utc = iso_of_epoch e (T w),
            modified_at_epoch = T w\<rparr> \<in> set (filter (\<lambda>c. report_month c = m) selected)"
        unfolding sel by simp
      then have "\<lparr>path = w, file_name = path_name w, report_month = m,
            size_bytes = stat_size e fs w,
            modified_at_utc = iso_of_epoch e (T w),
            modified_at_epoch = T w\<rparr> \<in> set selected" by simp
      then have "w \<in> path ` set selected" by force
      with \<open>y = w\<close> show "y \<in> path ` set selected" by simp
    qed
  qed
  have uniq: "\<And>y. y \<in> set G \<Longrightarrow> parse_report_month e y = Inr m \<Longrightarrow> beats_all y \<Longrightarrow> y = w"
  proof -
    fix y assume y: "y \<in> set G" "parse_report_month e y = Inr m" "beats_all y"
    from y(3) w have a: "T w < T y \<or> (T w = T y \<and> path_parts y \<le> path_parts w)"
      unfolding beats_all_def by blast
    from best y have b: "T y < T w \<or> (T y = T w \<and> path_parts w \<le> path_parts y)"
      unfolding beats_all_def by blast
    from a b have "path_parts y = path_parts w" by auto
    then show "y = w" by (rule path_parts_inj)
  qed
  have Lw: "L \<noteq> w"
  proof
    assume eq: "L = w"
    show False
    proof (cases "T p < T q")
      case True
      then have "w = p" using eq L_def by simp
      from best q mq have "T q < T w \<or> (T q = T w \<and> path_parts w \<le> path_parts q)"
        unfolding beats_all_def G_def by blast
      with True \<open>w = p\<close> show False by auto
    next
      case False
      then have "w = q" using eq L_def by simp
      from best p mp have "T p < T w \<or> (T p = T w \<and> path_parts w \<le> path_parts p)"
        unfolding beats_all_def G_def by blast
      with False \<open>w = q\<close> pq show False by auto
    qed
  qed
  have A: "sorted_wrt (<) (map path_parts (glob_xlsx fs d))"
    by (rule glob_xlsx_strict_sorted)
  have A': "path_name p < path_name q"
    using pq unfolding glob_xlsx_order [OF p q] .
  have B: "L \<notin> path ` set selected"
    using sel_path [OF LG(2)] Lw by simp
  have C: "length (filter (\<lambda>r. json_get r ''file'' JNull = Inr (JStr L)) skipped) = 1"
    using part(1) [of L] LG(1) B unfolding G_def by simp
  have D: "PW \<in> path ` set selected \<longleftrightarrow> beats_all PW"
  proof
    assume "PW \<in> path ` set selected"
    then have "PW = w" using sel_path [OF PWG(2)] by simp
    with best show "beats_all PW" by simp
  next
    assume "beats_all PW"
    from uniq [OF PWG this] show "PW \<in> path ` set selected"
      using sel_path [OF PWG(2)] by simp
  qed
  have E: "\<exists>w \<in> set G. parse_report_month e w = Inr m \<and> beats_all w \<and>
        filter (\<lambda>c. report_month c = m) selected =
          [\<lparr>path = w, file_name = path_name w, report_month = m,
            size_bytes = stat_size e fs w,
            modified_at_utc = iso_of_epoch e (T w),
            modified_at_epoch = T w\<rparr>]"
    using w best sel by blast
  have F: "\<forall>x. length (filter (\<lambda>r. json_get r ''file'' JNull = Inr (JStr x)) skipped) =
            (if x \<in> set G \<and> x \<notin> path ` set selected then 1 else 0)"
    unfolding G_def using part(1) by blast
  have H: "path ` set selected \<subseteq> set G" unfolding G_def by (rule part(2))
  have R: "\<exists>mapping. discover_raw_partitions e' fs' root = Inr (mapping, []) \<and>
        distinct (map fst mapping)"
    using discover_raw_partitions_distinct_months [of e' fs' root]
    by (simp add: discover_raw_partitions_closed)
  from A A' B C D E F H R show ?thesis
    unfolding L_def PW_def beats_all_def T_def G_def by (intro conjI)
qed

lemma discover_march:
  "discover_input_files demo_env fs_march ''in'' =
     ([march_candidate ''c_2024-03.xlsx'' 3],
      [rejection ''in/notes.xlsx''
         ''invalid_report_month: Could not parse report month from file name: notes.xlsx'',
       rejection ''in/b_2024-03.xlsx'' ''duplicate_month_older_than:a_2024-03.xlsx'',
       rejection ''in/a_2024-03.xlsx''
         ''duplicate_month_replaced_by_newer_file:c_2024-03.xlsx''])"
  by code_simp

lemma glob_march:
  "glob_xlsx fs_march ''in'' =
     [''in/a_2024-03.xlsx'', ''in/b_2024-03.xlsx'', ''in/c_2024-03.xlsx'', ''in/notes.xlsx'']"
  by code_simp

lemma march_facts:
  "parse_report_month demo_env ''in/a_2024-03.xlsx'' = Inr ''2024-03''"
  "parse_report_month demo_env ''in/b_2024-03.xlsx'' = Inr ''2024-03''"
  "parse_report_month demo_env ''in/c_2024-03.xlsx'' = Inr ''2024-03''"
  "stat_mtime demo_env fs_march ''in/a_2024-03.xlsx'' = 2"
  "stat_mtime demo_env fs_march ''in/b_2024-03.xlsx'' = 2"
  "stat_mtime demo_env fs_march ''in/c_2024-03.xlsx'' = 3"
  "path_parts ''in/a_2024-03.xlsx'' < path_parts ''in/b_2024-03.xlsx''"
  "path_parts ''in/a_2024-03.xlsx'' < path_parts ''in/c_2024-03.xlsx''"
  by code_simp+

theorem discover_input_files_tie_break_witness:
  "discover_input_files demo_env fs_march ''in'' =
     ([march_candidate ''c_2024-03.xlsx'' 3],
      [rejection ''in/notes.xlsx''
         ''invalid_report_month: Could not parse report month from file name: notes.xlsx'',
       rejection ''in/b_2024-03.xlsx'' ''duplicate_month_older_than:a_2024-03.xlsx'',
       rejection ''in/a_2024-03.xlsx''
         ''duplicate_month_replaced_by_newer_file:c_2024-03.xlsx'']) \<and>
   glob_xlsx fs_march ''in'' =
     [''in/a_2024-03.xlsx'', ''in/b_2024-03.xlsx'', ''in/c_2024-03.xlsx'', ''in/notes.xlsx''] \<and>
   parse_report_month demo_env ''in/a_2024-03.xlsx'' = Inr ''2024-03'' \<and>
   parse_report_month demo_env ''in/b_2024-03.xlsx'' = Inr ''2024-03'' \<and>
   parse_report_month demo_env ''in/c_2024-03.xlsx'' = Inr ''2024-03'' \<and>
   path_parts ''in/a_2024-03.xlsx'' < path_parts ''in/b_2024-03.xlsx'' \<and>
   path_parts ''in/a_2024-03.xlsx'' < path_parts ''in/c_2024-03.xlsx'' \<and>
   stat_mtime demo_env fs_march ''in/a_2024-03.xlsx'' = 2 \<and>
   stat_mtime demo_env fs_march ''in/b_2024-03.xlsx'' = 2 \<and>
   stat_mtime demo_env fs_march ''in/c_2024-03.xlsx'' = 3 \<and>
   ''in/b_2024-03.xlsx'' \<notin> path ` set (fst (discover_input_files demo_env fs_march ''in'')) \<and>
   length (filter (\<lambda>r. json_get r ''file'' JNull = Inr (JStr ''in/b_2024-03.xlsx''))
             (snd (discover_input_files demo_env fs_march ''in''))) = 1 \<and>
   ''in/a_2024-03.xlsx'' \<notin> path ` set (fst (discover_input_files demo_env fs_march ''in'')) \<and>
   length (filter (\<lambda>r. json_get r ''file'' JNull = Inr (JStr ''in/a_2024-03.xlsx''))
             (snd (discover_input_files demo_env fs_march ''in''))) = 1 \<and>
   ''in/c_2024-03.xlsx'' \<in> path ` set (fst (discover_input_files demo_env fs_march ''in''))"
proof -
  have mem: "''in/a_2024-03.xlsx'' \<in> set (glob_xlsx fs_march ''in'')"
    "''in/b_2024-03.xlsx'' \<in> set (glob_xlsx fs_march ''in'')"
    "''in/c_2024-03.xlsx'' \<in> set (glob_xlsx fs_march ''in'')"
    unfolding glob_march by simp_all
  note tie = discover_input_files_tie_break
      [OF discover_march mem(1) mem(2) march_facts(1) march_facts(2) march_facts(7)]
  note later = discover_input_files_tie_break
      [OF discover_march mem(1) mem(3) march_facts(1) march_facts(3) march_facts(8)]
  have sel: "fst (discover_input_files demo_env fs_march ''in'') =
      [march_candidate ''c_2024-03.xlsx'' 3]" unfolding discover_march by simp
  have sk: "snd (discover_input_files demo_env fs_march ''in'') =
      [rejection ''in/notes.xlsx''
         ''invalid_report_month: Could not parse report month from file name: notes.xlsx'',
       rejection ''in/b_2024-03.xlsx'' ''duplicate_month_older_than:a_2024-03.xlsx'',
       rejection ''in/a_2024-03.xlsx''
         ''duplicate_month_replaced_by_newer_file:c_2024-03.xlsx'']"
    unfolding discover_march by simp
  define sk where "sk = [rejection ''in/notes.xlsx''
         ''invalid_report_month: Could not parse report month from file name: notes.xlsx'',
       rejection ''in/b_2024-03.xlsx'' ''duplicate_month_older_than:a_2024-03.xlsx'',
       rejection ''in/a_2024-03.xlsx''
         ''duplicate_month_replaced_by_newer_file:c_2024-03.xlsx'']"
  have b1: "''in/b_2024-03.xlsx'' \<notin> path ` set [march_candidate ''c_2024-03.xlsx'' 3]"
    using tie [THEN conjunct2, THEN conjunct2, THEN conjunct1]
    by (simp only: march_facts less_irrefl if_False simp_thms)
  have b2: "length (filter (\<lambda>r. json_get r ''file'' JNull = Inr (JStr ''in/b_2024-03.xlsx''))
       sk) = 1"
    using tie [THEN conjunct2, THEN conjunct2, THEN conjunct2, THEN conjunct1]
    unfolding sk_def by (simp only: march_facts less_irrefl if_False simp_thms)
  have lt: "(2::int) < 3" by simp
  have a1: "''in/a_2024-03.xlsx'' \<notin> path ` set [march_candidate ''c_2024-03.xlsx'' 3]"
    using later [THEN conjunct2, THEN conjunct2, THEN conjunct1]
    by (simp only: march_facts lt if_True simp_thms)
  have a2: "length (filter (\<lambda>r. json_get r ''file'' JNull = Inr (JStr ''in/a_2024-03.xlsx''))
       sk) = 1"
    using later [THEN conjunct2, THEN conjunct2, THEN conjunct2, THEN conjunct1]
    unfolding sk_def by (simp only: march_facts lt if_True simp_thms)
  note b = b1 b2 [unfolded sk_def]
  note a = a1 a2 [unfolded sk_def]
  have c: "''in/c_2024-03.xlsx'' \<in> path ` set [march_candidate ''c_2024-03.xlsx'' 3]"
    by (simp add: march_candidate_def)
  show ?thesis
    unfolding sel sk
    by (intro conjI) (rule discover_march glob_march march_facts b a c)+
qed

text \<open>
  C5 as stated fails when a third file of the month is newer: of the two March
  workbooks \<^verbatim>\<open>a\<close> and \<^verbatim>\<open>b\<close>, modified at the same time, \<^verbatim>\<open>a\<close> comes first in the
  scan, and yet \<^verbatim>\<open>a\<close> is not selected: the later modified \<^verbatim>\<open>c\<close> is.
\<close>

theorem discover_pair_winner_not_selected:
  "''in/a_2024-03.xlsx'' \<in> set (glob_xlsx fs_march ''in'') \<and>
   ''in/b_2024-03.xlsx'' \<in> set (glob_xlsx fs_march ''in'') \<and>
   parse_report_month demo_env ''in/a_2024-03.xlsx'' = Inr ''2024-03'' \<and>
   parse_report_month demo_env ''in/b_2024-03.xlsx'' = Inr ''2024-03'' \<and>
   stat_mtime demo_env fs_march ''in/a_2024-03.xlsx'' =
     stat_mtime demo_env fs_march ''in/b_2024-03.xlsx'' \<and>
   path_parts ''in/a_2024-03.xlsx'' < path_parts ''in/b_2024-03.xlsx'' \<and>
   map path (fst (discover_input_files demo_env fs_march ''in'')) = [''in/c_2024-03.xlsx'']"
  by (simp add: glob_march march_facts discover_march march_candidate_def)

text \<open>
  C6, as the code has it. Every rejection of \<^verbatim>\<open>discover_input_files\<close> is of one of
  three kinds: \<^verbatim>\<open>invalid_report_month: Could not parse report month from file name: <name>\<close>
  for a path whose name has no report month; \<^verbatim>\<open>duplicate_month_replaced_by_newer_file:<name>\<close>
  for a path of the same month that a strictly later modified path replaced;
  \<^verbatim>\<open>duplicate_month_older_than:<name>\<close> for a path that lost to a path of the same
  month modified no earlier. \<^verbatim>\<open>discover_raw_partitions\<close> never rejects and never raises.
\<close>

theorem discover_rejection_reasons:
  assumes disc: "discover_input_files e fs d = (selected, skipped)" and r: "r \<in> set skipped"
  shows "((\<exists>p. p \<in> set (glob_xlsx fs d) \<and> re_search_month e (path_name p) = None \<and>
            r = rejection p
                  (''invalid_report_month: Could not parse report month from file name: '' @
                   path_name p)) \<or>
         (\<exists>pa pb m. pa \<in> set (glob_xlsx fs d) \<and> pb \<in> set (glob_xlsx fs d) \<and>
            parse_report_month e pa = Inr m \<and> parse_report_month e pb = Inr m \<and>
            (r = rejection pa (''duplicate_month_replaced_by_newer_file:'' @ path_name pb) \<and>
               stat_mtime e fs pa < stat_mtime e fs pb \<or>
             r = rejection pa (''duplicate_month_older_than:'' @ path_name pb) \<and>
               stat_mtime e fs pa \<le> stat_mtime e fs pb))) \<and>
         (\<exists>mapping. discover_raw_partitions e' fs' root = Inr (mapping, []))"
  using discover_input_files_reasons [OF disc r]
  by (simp add: discover_raw_partitions_closed)

theorem discover_rejection_reasons_witness:
  "discover_input_files demo_env fs_march ''in'' =
     ([march_candidate ''c_2024-03.xlsx'' 3],
      [rejection ''in/notes.xlsx''
         ''invalid_report_month: Could not parse report month from file name: notes.xlsx'',
       rejection ''in/b_2024-03.xlsx'' ''duplicate_month_older_than:a_2024-03.xlsx'',
       rejection ''in/a_2024-03.xlsx''
         ''duplicate_month_replaced_by_newer_file:c_2024-03.xlsx'']) \<and>
   (\<exists>mapping. discover_raw_partitions demo_env fs_march ''out'' = Inr (mapping, [])) \<and>
   ((\<exists>p. p \<in> set (glob_xlsx fs_march ''in'') \<and>
        re_search_month demo_env (path_name p) = None \<and>
        rejection ''in/b_2024-03.xlsx'' ''duplicate_month_older_than:a_2024-03.xlsx'' =
        rejection p
          (''invalid_report_month: Could not parse report month from file name: '' @
           path_name p)) \<or>
    (\<exists>pa pb m. pa \<in> set (glob_xlsx fs_march ''in'') \<and>
        pb \<in> set (glob_xlsx fs_march ''in'') \<and>
        parse_report_month demo_env pa = Inr m \<and> parse_report_month demo_env pb = Inr m \<and>
        (rejection ''in/b_2024-03.xlsx'' ''duplicate_month_older_than:a_2024-03.xlsx'' =
           rejection pa (''duplicate_month_replaced_by_newer_file:'' @ path_name pb) \<and>
           stat_mtime demo_env fs_march pa < stat_mtime demo_env fs_march pb \<or>
         rejection ''in/b_2024-03.xlsx'' ''duplicate_month_older_than:a_2024-03.xlsx'' =
           rejection pa (''duplicate_month_older_than:'' @ path_name pb) \<and>
           stat_mtime demo_env fs_march pa \<le> stat_mtime demo_env fs_march pb)))"
proof -
  have mem: "rejection ''in/b_2024-03.xlsx'' ''duplicate_month_older_than:a_2024-03.xlsx'' \<in>
      set [rejection ''in/notes.xlsx''
         ''invalid_report_month: Could not parse report month from file name: notes.xlsx'',
       rejection ''in/b_2024-03.xlsx'' ''duplicate_month_older_than:a_2024-03.xlsx'',
       rejection ''in/a_2024-03.xlsx''
         ''duplicate_month_replaced_by_newer_file:c_2024-03.xlsx'']"
    by (simp only: list.set insert_iff simp_thms)
  note inst = discover_rejection_reasons
      [OF discover_march mem, of demo_env fs_march "''out''"]
  from inst [THEN conjunct1] inst [THEN conjunct2] discover_march show ?thesis
    by (intro conjI) (simp_all only: simp_thms)
qed

text \<open>
  C6 as stated fails: the reasons the code writes are not in the vocabulary
  \<^verbatim>\<open>invalid_partition_key\<close>, \<^verbatim>\<open>duplicate_partition_replaced_by_newer_file:<name>\<close>,
  \<^verbatim>\<open>duplicate_partition_older_than:<name>\<close>.
\<close>

theorem discover_reasons_not_spec_vocabulary:
  "\<not> (\<forall>r \<in> set (snd (discover_input_files demo_env fs_march ''in'')).
        \<exists>f x. r = rejection f x \<and>
          (x = ''invalid_partition_key'' \<or>
           (\<exists>n. x = ''duplicate_partition_replaced_by_newer_file:'' @ n) \<or>
           (\<exists>n. x = ''duplicate_partition_older_than:'' @ n)))"
  by (simp add: discover_march rejection_def)

lemma map_of_write_file_not_None:
  "map_of fs q \<noteq> None \<Longrightarrow> map_of (write_file fs p c t) q \<noteq> None"
  by (simp add: write_file_def update_conv')

lemma ingest_step_cases [consumes 1, case_names unchanged failed processed]:
  assumes "ingest_step e root strict fi v = Inr v'"
  obtains
    checksum where "file_sha256 e (fs_now v) (path fi) = Inr checksum"
      and "json_get (dict_get (state_records v) (normalize_state_path_key e (path fi)) (JDict []))
             ''sha256'' JNull = Inr (JStr checksum)"
      and "json_get (dict_get (state_records v) (normalize_state_path_key e (path fi)) (JDict []))
             ''report_month'' JNull = Inr (JStr (report_month fi))"
      and "v' = v\<lparr>unchanged := unchanged v @
                  [JDict [(''file'', JStr (path fi)),
                          (''report_month'', JStr (report_month fi))]]\<rparr>"
  | checksum err where "file_sha256 e (fs_now v) (path fi) = Inr checksum"
      and "ingest_workbook e (fs_now v) (path fi) strict = Inl err"
      and "v' = v\<lparr>failed := failed v @
                  [JDict [(''file'', JStr (path fi)),
                          (''report_month'', JStr (report_month fi)),
                          (''error'', JStr (str_error err))]]\<rparr>"
  | checksum table m totals where "file_sha256 e (fs_now v) (path fi) = Inr checksum"
      and "ingest_workbook e (fs_now v) (path fi) strict = Inr (table, m, totals)"
      and "v' = v\<lparr>fs_now :=
                   write_file
                     (write_file (fs_now v) (raw_parquet_path root m) (Raw table) (time_now e))
                     (ingest_report_path root m)
                     (Json (ingest_report_document (path fi) m totals)) (time_now e),
                 state_records :=
                   AList.update (normalize_state_path_key e (path fi))
                     (JDict [(''file_name'', JStr (path_name (path fi))),
                             (''absolute_path'', JStr (path fi)),
                             (''report_month'', JStr m),
                             (''sha256'', JStr checksum),
                             (''size_bytes'', JInt (int (size_bytes fi))),
                             (''modified_at_utc'', JStr (modified_at_utc fi)),
                             (''ingested_at_utc'', JStr (utc_now_iso e)),
                             (''rows_loaded'', rows_loaded totals),
                             (''parquet_path'', JStr (raw_parquet_path root m)),
                             (''ingest_report_path'', JStr (ingest_report_path root m))])
                     (state_records v),
                 processed := processed v @
                   [JDict [(''file'', JStr (path fi)), (''report_month'', JStr m),
                           (''rows_loaded'', rows_loaded totals),
                           (''parquet_path'', JStr (raw_parquet_path root m))]]\<rparr>"
  using assms
  by (auto simp: ingest_step_def Let_def split: sum.splits if_splits prod.splits)

lemma ingest_loop_invariant:
  assumes "ingest_loop e root strict cs v = (x, v')" and "I v"
    and "\<And>fi w w'. fi \<in> set cs \<Longrightarrow> I w \<Longrightarrow> ingest_step e root strict fi w = Inr w' \<Longrightarrow> I w'"
  shows "I v'"
  using assms
proof (induction cs arbitrary: v)
  case Nil
  then show ?case by simp
next
  case (Cons fi cs)
  show ?case
  proof (cases "ingest_step e root strict fi v")
    case (Inl err)
    with Cons.prems show ?thesis by simp
  next
    case (Inr w)
    with Cons.prems(1) have l: "ingest_loop e root strict cs w = (x, v')" by simp
    have "I w" by (rule Cons.prems(3) [OF _ Cons.prems(2) Inr]) simp
    show ?thesis
      by (rule Cons.IH [OF l \<open>I w\<close>]) (rule Cons.prems(3), simp_all)
  qed
qed

lemma ingest_workbook_month:
  "ingest_workbook e fs p strict = Inr (table, m, totals) \<Longrightarrow> parse_report_month e p = Inr m"
  by (auto simp: ingest_workbook_def split: option.splits sum.splits)

lemma item_report_month_processed [simp]:
  "item_report_month (JDict ((''file'', a) # (''report_month'', JStr m) # rest)) = m"
  by (simp add: item_report_month_def json_get_def)

lemma ingest_step_parquet_written:
  assumes step: "ingest_step e root strict fi v = Inr v'"
    and inv: "\<forall>m \<in> item_report_month ` set (processed v).
               CHR ''/'' \<notin> set m \<and> map_of (fs_now v) (raw_parquet_path root m) \<noteq> None"
  shows "\<forall>m \<in> item_report_month ` set (processed v').
               CHR ''/'' \<notin> set m \<and> map_of (fs_now v') (raw_parquet_path root m) \<noteq> None"
  using step
proof (cases rule: ingest_step_cases)
  case (unchanged checksum)
  with inv show ?thesis by simp
next
  case (failed checksum err)
  with inv show ?thesis by simp
next
  case (processed checksum table m totals)
  have m: "CHR ''/'' \<notin> set m"
    using ingest_workbook_month [OF processed(2)] by (rule parse_report_month_no_slash)
  have new: "map_of (fs_now v') (raw_parquet_path root m) \<noteq> None"
    unfolding processed(3)
    by (simp add: map_of_write_file_not_None map_of_write_file_same)
  have old: "\<And>m'. map_of (fs_now v) (raw_parquet_path root m') \<noteq> None \<Longrightarrow>
      map_of (fs_now v') (raw_parquet_path root m') \<noteq> None"
    unfolding processed(3) by (simp add: map_of_write_file_not_None)
  have "item_report_month ` set (processed v') =
          insert m (item_report_month ` set (processed v))"
    unfolding processed(3) by simp
  with inv m new old show ?thesis by auto
qed

lemma ingest_loop_parquet_written:
  assumes "ingest_loop e root strict cs v = (x, v')"
    and "processed v = []"
  shows "\<forall>m \<in> item_report_month ` set (processed v').
               CHR ''/'' \<notin> set m \<and> map_of (fs_now v') (raw_parquet_path root m) \<noteq> None"
  by (rule ingest_loop_invariant [OF assms(1), where I = "\<lambda>w.
        \<forall>m \<in> item_report_month ` set (processed w).
               CHR ''/'' \<notin> set m \<and> map_of (fs_now w) (raw_parquet_path root m) \<noteq> None"])
     (simp add: assms(2), rule ingest_step_parquet_written)

lemma ingest_stage_Inr:
  assumes "ingest_stage e fs a = Inr s"
  obtains st cs sk where "is_dir fs (arg_input_dir a)"
    and "load_state fs (main_state_path a) = Inr st"
    and "discover_input_files e fs (arg_input_dir a) = (cs, sk)"
    and "ingest_loop e (arg_output_root a) (\<not> allow_header_mismatch a) cs
           \<lparr>fs_now = fs, state_records = files st, processed = [], unchanged = [],
            failed = []\<rparr> = (None, vars s)"
    and "discovery_skipped s = sk" and "discovered_count s = length cs"
    and "fs_end s = fst (save_state e (fs_now (vars s)) (main_state_path a)
                           (st\<lparr>files := state_records (vars s)\<rparr>))"
  using assms
  by (auto simp: ingest_stage_def split: if_splits sum.splits prod.splits option.splits)

lemma main_Inr:
  assumes "main e fs a = Inr r"
  obtains s where "ingest_stage e fs a = Inr s"
    and "vars (ingest r) = vars s"
    and "processed_months r = sort (remdups (map item_report_month (processed (vars s))))"
    and "curated_run r =
           (if build_curated a then
              Some (run_curated_build e (fs_end s) (arg_output_root a)
                      (months_for_curated (processed_months r)) None)
            else None)"
  using assms
  by (auto simp: main_def Let_def split: sum.splits)

lemma curated_step_cases [consumes 1, case_names unchanged failed processed]:
  assumes "curated_step e root (month, rp) v = Inr v'"
  obtains
    raw_checksum cp where "file_sha256 e (fs_now v) rp = Inr raw_checksum"
      and "previous_matches (fs_now v) (dict_get (state_records v) month (JDict [])) raw_checksum
             = Inr True"
      and "v' = v\<lparr>unchanged := unchanged v @
                  [JDict [(''report_month'', JStr month), (''raw_parquet_path'', JStr rp),
                          (''curated_parquet_path'', cp)]]\<rparr>"
  | raw_checksum err where "file_sha256 e (fs_now v) rp = Inr raw_checksum"
      and "previous_matches (fs_now v) (dict_get (state_records v) month (JDict [])) raw_checksum
             = Inr False"
      and "build_curated_table e (fs_now v) rp = Inl err"
      and "v' = v\<lparr>failed := failed v @
                  [JDict [(''report_month'', JStr month), (''raw_parquet_path'', JStr rp),
                          (''error'', JStr (str_error err))]]\<rparr>"
  | raw_checksum table num_rows num_columns where
      "file_sha256 e (fs_now v) rp = Inr raw_checksum"
      and "previous_matches (fs_now v) (dict_get (state_records v) month (JDict [])) raw_checksum
             = Inr False"
      and "build_curated_table e (fs_now v) rp = Inr (table, num_rows, num_columns)"
      and "v' = v\<lparr>fs_now :=
                   write_file
                     (write_file (fs_now v) (curated_parquet_path root month) (Raw table)
                        (time_now e))
                     (curated_report_path root month)
                     (Json (JDict [(''schema_id'', JStr CURATED_SCHEMA_ID),
                                  (''report_month'', JStr month),
                                  (''raw_parquet_path'', JStr rp),
                                  (''raw_sha256'', JStr raw_checksum),
                                  (''curated_parquet_path'', JStr (curated_parquet_path root month)),
                                  (''row_count'', JInt num_rows),
                                  (''column_count'', JInt num_columns),
                                  (''generated_at_utc'', JStr (utc_now_iso e))]))
                     (time_now e),
                 state_records :=
                   AList.update month
                     (JDict [(''raw_parquet_path'', JStr rp),
                             (''raw_sha256'', JStr raw_checksum),
                             (''curated_parquet_path'', JStr (curated_parquet_path root month)),
                             (''curated_report_path'', JStr (curated_report_path root month)),
                             (''row_count'', JInt num_rows),
                             (''column_count'', JInt num_columns),
                             (''updated_at_utc'', JStr (utc_now_iso e))])
                     (state_records v),
                 processed := processed v @
                   [JDict [(''schema_id'', JStr CURATED_SCHEMA_ID),
                           (''report_month'', JStr month),
                           (''raw_parquet_path'', JStr rp),
                           (''raw_sha256'', JStr raw_checksum),
                           (''curated_parquet_path'', JStr (curated_parquet_path root month)),
                           (''row_count'', JInt num_rows),
                           (''column_count'', JInt num_columns),
                           (''generated_at_utc'', JStr (utc_now_iso e))]]\<rparr>"
  using assms
  by (auto simp: curated_step_def Let_def split: sum.splits if_splits prod.splits bool.splits)

lemma curated_loop_invariant:
  assumes "curated_loop e root ps v = (x, v')" and "I v"
    and "\<And>part w w'. part \<in> set ps \<Longrightarrow> I w \<Longrightarrow> curated_step e root part w = Inr w' \<Longrightarrow> I w'"
  shows "I v'"
  using assms
proof (induction ps arbitrary: v)
  case Nil
  then show ?case by simp
next
  case (Cons part ps)
  show ?case
  proof (cases "curated_step e root part v")
    case (Inl err)
    with Cons.prems show ?thesis by simp
  next
    case (Inr w)
    with Cons.prems(1) have l: "curated_loop e root ps w = (x, v')" by simp
    have "I w" by (rule Cons.prems(3) [OF _ Cons.prems(2) Inr]) simp
    show ?thesis
      by (rule Cons.IH [OF l \<open>I w\<close>]) (rule Cons.prems(3), simp_all)
  qed
qed

lemma ingest_step_upsert:
  assumes d: "distinct (map fst (state_records v))"
    and step: "ingest_step e root strict fi v = Inr v'"
  shows "distinct (map fst (state_records v')) \<and>
     (\<forall>k. k \<noteq> normalize_state_path_key e (path fi) \<longrightarrow>
          map_of (state_records v') k = map_of (state_records v) k) \<and>
     (processed v' = processed v \<longrightarrow> state_records v' = state_records v) \<and>
     (processed v' \<noteq> processed v \<longrightarrow>
        (\<exists>checksum table m totals rec.
           file_sha256 e (fs_now v) (path fi) = Inr checksum \<and>
           ingest_workbook e (fs_now v) (path fi) strict = Inr (table, m, totals) \<and>
           filter (\<lambda>x. fst x = normalize_state_path_key e (path fi)) (state_records v') =
             [(normalize_state_path_key e (path fi), rec)] \<and>
           json_get rec ''sha256'' JNull = Inr (JStr checksum) \<and>
           json_get rec ''report_month'' JNull = Inr (JStr m) \<and>
           json_get rec ''parquet_path'' JNull = Inr (JStr (raw_parquet_path root m)) \<and>
           json_get rec ''ingest_report_path'' JNull =
             Inr (JStr (ingest_report_path root m))))"
  using step
proof (cases rule: ingest_step_cases)
  case (unchanged checksum)
  then have "processed v' = processed v" "state_records v' = state_records v" by simp_all
  with d show ?thesis by (simp only: simp_thms)
next
  case (failed checksum err)
  then have "processed v' = processed v" "state_records v' = state_records v" by simp_all
  with d show ?thesis by (simp only: simp_thms)
next
  case (processed checksum table m totals)
  define key where "key = normalize_state_path_key e (path fi)"
  define rec where "rec =
     JDict [(''file_name'', JStr (path_name (path fi))),
            (''absolute_path'', JStr (path fi)),
            (''report_month'', JStr m),
            (''sha256'', JStr checksum),
            (''size_bytes'', JInt (int (size_bytes fi))),
            (''modified_at_utc'', JStr (modified_at_utc fi)),
            (''ingested_at_utc'', JStr (utc_now_iso e)),
            (''rows_loaded'', rows_loaded totals),
            (''parquet_path'', JStr (raw_parquet_path root m)),
            (''ingest_report_path'', JStr (ingest_report_path root m))]"
  from processed(3) have sr: "state_records v' = AList.update key rec (state_records v)"
    by (simp add: key_def rec_def)
  have d': "distinct (map fst (state_records v'))"
    unfolding sr by (rule distinct_update [OF d])
  have other: "\<forall>k. k \<noteq> key \<longrightarrow> map_of (state_records v') k = map_of (state_records v) k"
    unfolding sr by (simp add: update_conv')
  have "map_of (state_records v') key = Some rec"
    unfolding sr by (simp add: update_conv')
  from filter_key_distinct [OF d' this]
  have one: "filter (\<lambda>x. fst x = key) (state_records v') = [(key, rec)]" .
  have fields: "json_get rec ''sha256'' JNull = Inr (JStr checksum)"
    "json_get rec ''report_month'' JNull = Inr (JStr m)"
    "json_get rec ''parquet_path'' JNull = Inr (JStr (raw_parquet_path root m))"
    "json_get rec ''ingest_report_path'' JNull = Inr (JStr (ingest_report_path root m))"
    by (simp_all add: rec_def json_get_def)
  have changed: "processed v' \<noteq> processed v"
    unfolding processed(3) by simp
  have ex: "\<exists>checksum table m totals rec.
           file_sha256 e (fs_now v) (path fi) = Inr checksum \<and>
           ingest_workbook e (fs_now v) (path fi) strict = Inr (table, m, totals) \<and>
           filter (\<lambda>x. fst x = key) (state_records v') = [(key, rec)] \<and>
           json_get rec ''sha256'' JNull = Inr (JStr checksum) \<and>
           json_get rec ''report_month'' JNull = Inr (JStr m) \<and>
           json_get rec ''parquet_path'' JNull = Inr (JStr (raw_parquet_path root m)) \<and>
           json_get rec ''ingest_report_path'' JNull =
             Inr (JStr (ingest_report_path root m))"
    by (intro exI conjI) (rule processed(1), rule processed(2), rule one, rule fields(1),
        rule fields(2), rule fields(3), rule fields(4))
  show ?thesis
  proof (intro conjI impI)
    show "distinct (map fst (state_records v'))" by (rule d')
    show "\<forall>k. k \<noteq> normalize_state_path_key e (path fi) \<longrightarrow>
          map_of (state_records v') k = map_of (state_records v) k"
      using other unfolding key_def .
    show "state_records v' = state_records v" if "processed v' = processed v"
      using that changed by simp
    show "\<exists>checksum table m totals rec.
           file_sha256 e (fs_now v) (path fi) = Inr checksum \<and>
           ingest_workbook e (fs_now v) (path fi) strict = Inr (table, m, totals) \<and>
           filter (\<lambda>x. fst x = normalize_state_path_key e (path fi)) (state_records v') =
             [(normalize_state_path_key e (path fi), rec)] \<and>
           json_get rec ''sha256'' JNull = Inr (JStr checksum) \<and>
           json_get rec ''report_month'' JNull = Inr (JStr m) \<and>
           json_get rec ''parquet_path'' JNull = Inr (JStr (raw_parquet_path root m)) \<and>
           json_get rec ''ingest_report_path'' JNull =
             Inr (JStr (ingest_report_path root m))"
      using ex unfolding key_def .
  qed
qed

lemma curated_step_upsert:
  assumes d: "distinct (map fst (state_records v))"
    and step: "curated_step e root (month, rp) v = Inr v'"
  shows "distinct (map fst (state_records v')) \<and>
     (\<forall>k. k \<noteq> month \<longrightarrow> map_of (state_records v') k = map_of (state_records v) k) \<and>
     (processed v' = processed v \<longrightarrow> state_records v' = state_records v) \<and>
     (processed v' \<noteq> processed v \<longrightarrow>
        (\<exists>raw_checksum rec.
           file_sha256 e (fs_now v) rp = Inr raw_checksum \<and>
           filter (\<lambda>x. fst x = month) (state_records v') = [(month, rec)] \<and>
           json_get rec ''raw_sha256'' JNull = Inr (JStr raw_checksum) \<and>
           json_get rec ''raw_parquet_path'' JNull = Inr (JStr rp) \<and>
           json_get rec ''curated_parquet_path'' JNull =
             Inr (JStr (curated_parquet_path root month)) \<and>
           json_get rec ''curated_report_path'' JNull =
             Inr (JStr (curated_report_path root month))))"
  using step
proof (cases rule: curated_step_cases)
  case (unchanged raw_checksum cp)
  then have "processed v' = processed v" "state_records v' = state_records v" by simp_all
  with d show ?thesis by (simp only: simp_thms)
next
  case (failed raw_checksum err)
  then have "processed v' = processed v" "state_records v' = state_records v" by simp_all
  with d show ?thesis by (simp only: simp_thms)
next
  case (processed raw_checksum table num_rows num_columns)
  define rec where "rec =
     JDict [(''raw_parquet_path'', JStr rp),
            (''raw_sha256'', JStr raw_checksum),
            (''curated_parquet_path'', JStr (curated_parquet_path root month)),
            (''curated_report_path'', JStr (curated_report_path root month)),
            (''row_count'', JInt num_rows),
            (''column_count'', JInt num_columns),
            (''updated_at_utc'', JStr (utc_now_iso e))]"
  from processed(4) have sr: "state_records v' = AList.update month rec (state_records v)"
    by (simp add: rec_def)
  have d': "distinct (map fst (state_records v'))"
    unfolding sr by (rule distinct_update [OF d])
  have other: "\<forall>k. k \<noteq> month \<longrightarrow> map_of (state_records v') k = map_of (state_records v) k"
    unfolding sr by (simp add: update_conv')
  have "map_of (state_records v') month = Some rec"
    unfolding sr by (simp add: update_conv')
  from filter_key_distinct [OF d' this]
  have one: "filter (\<lambda>x. fst x = month) (state_records v') = [(month, rec)]" .
  have fields: "json_get rec ''raw_sha256'' JNull = Inr (JStr raw_checksum)"
    "json_get rec ''raw_parquet_path'' JNull = Inr (JStr rp)"
    "json_get rec ''curated_parquet_path'' JNull = Inr (JStr (curated_parquet_path root month))"
    "json_get rec ''curated_report_path'' JNull = Inr (JStr (curated_report_path root month))"
    by (simp_all add: rec_def json_get_def)
  have changed: "processed v' \<noteq> processed v"
    unfolding processed(4) by simp
  have ex: "\<exists>raw_checksum rec.
           file_sha256 e (fs_now v) rp = Inr raw_checksum \<and>
           filter (\<lambda>x. fst x = month) (state_records v') = [(month, rec)] \<and>
           json_get rec ''raw_sha256'' JNull = Inr (JStr raw_checksum) \<and>
           json_get rec ''raw_parquet_path'' JNull = Inr (JStr rp) \<and>
           json_get rec ''curated_parquet_path'' JNull =
             Inr (JStr (curated_parquet_path root month)) \<and>
           json_get rec ''curated_report_path'' JNull =
             Inr (JStr (curated_report_path root month))"
    by (intro exI conjI) (rule processed(1), rule one, rule fields(1),
        rule fields(2), rule fields(3), rule fields(4))
  show ?thesis
  proof (intro conjI impI)
    show "distinct (map fst (state_records v'))" by (rule d')
    show "\<forall>k. k \<noteq> month \<longrightarrow> map_of (state_records v') k = map_of (state_records v) k"
      by (rule other)
    show "state_records v' = state_records v" if "processed v' = processed v"
      using that changed by simp
    show "\<exists>raw_checksum rec.
           file_sha256 e (fs_now v) rp = Inr raw_checksum \<and>
           filter (\<lambda>x. fst x = month) (state_records v') = [(month, rec)] \<and>
           json_get rec ''raw_sha256'' JNull = Inr (JStr raw_checksum) \<and>
           json_get rec ''raw_parquet_path'' JNull = Inr (JStr rp) \<and>
           json_get rec ''curated_parquet_path'' JNull =
             Inr (JStr (curated_parquet_path root month)) \<and>
           json_get rec ''curated_report_path'' JNull =
             Inr (JStr (curated_report_path root month))"
      by (rule ex)
  qed
qed

lemma ingest_loop_distinct:
  assumes "ingest_loop e root strict cs v = (x, v')" and "distinct (map fst (state_records v))"
  shows "distinct (map fst (state_records v'))"
proof (rule ingest_loop_invariant [OF assms(1), where I = "\<lambda>w. distinct (map fst (state_records w))"])
  show "distinct (map fst (state_records v))" by (rule assms(2))
next
  fix fi w w'
  assume "distinct (map fst (state_records w))" "ingest_step e root strict fi w = Inr w'"
  then show "distinct (map fst (state_records w'))"
    by (rule ingest_step_upsert [THEN conjunct1])
qed

lemma curated_loop_distinct:
  assumes "curated_loop e root ps v = (x, v')" and "distinct (map fst (state_records v))"
  shows "distinct (map fst (state_records v'))"
proof (rule curated_loop_invariant [OF assms(1), where I = "\<lambda>w. distinct (map fst (state_records w))"])
  show "distinct (map fst (state_records v))" by (rule assms(2))
next
  fix part w w'
  assume d: "distinct (map fst (state_records w))" and st: "curated_step e root part w = Inr w'"
  obtain month rp where "part = (month, rp)" by (cases part)
  with st have "curated_step e root (month, rp) w = Inr w'" by simp
  from curated_step_upsert [OF d this, THEN conjunct1]
  show "distinct (map fst (state_records w'))" .
qed

subsection \<open>The month filter of the curated build\<close>

lemma processed_months_discovered:
  assumes stage: "ingest_stage e fs a = Inr s"
    and disc: "discover_raw_partitions e' (fs_end s) (arg_output_root a) = Inr (discovered, sk)"
  shows "item_report_month ` set (processed (vars s)) \<subseteq> fst ` set discovered"
proof
  fix m assume m: "m \<in> item_report_month ` set (processed (vars s))"
  from stage obtain st cs sk' where
    loop: "ingest_loop e (arg_output_root a) (\<not> allow_header_mismatch a) cs
           \<lparr>fs_now = fs, state_records = files st, processed = [], unchanged = [],
            failed = []\<rparr> = (None, vars s)"
    and fe: "fs_end s = fst (save_state e (fs_now (vars s)) (main_state_path a)
                           (st\<lparr>files := state_records (vars s)\<rparr>))"
    by (rule ingest_stage_Inr)
  from ingest_loop_parquet_written [OF loop] m
  have ns: "CHR ''/'' \<notin> set m"
    and ex: "map_of (fs_now (vars s)) (raw_parquet_path (arg_output_root a) m) \<noteq> None"
    by auto
  from ex have "map_of (fs_end s) (raw_parquet_path (arg_output_root a) m) \<noteq> None"
    unfolding fe by (simp add: save_state_def Let_def map_of_write_file_not_None)
  then obtain f where f: "map_of (fs_end s)
      (raw_base (arg_output_root a) @ ''/report_month_'' @ m @ ''/sales_monthly_v1.parquet'') = Some f"
    unfolding raw_parquet_path_base by blast
  define p0 where
    "p0 = raw_base (arg_output_root a) @ ''/report_month_'' @ m @ ''/sales_monthly_v1.parquet''"
  from glob_raw_complete [OF f ns]
  have mem: "p0 \<in> set (glob_raw (fs_end s) (raw_base (arg_output_root a)))"
    unfolding p0_def .
  define g where "g = (\<lambda>x :: path.
      (case parse_month_from_partition_dir (path_parent x) of
         Inr m \<Rightarrow> m | Inl err \<Rightarrow> [], x))"
  from disc have "discovered = map g (glob_raw (fs_end s) (raw_base (arg_output_root a)))"
    by (simp add: discover_raw_partitions_closed g_def)
  then have sd: "set discovered = g ` set (glob_raw (fs_end s) (raw_base (arg_output_root a)))"
    by simp
  from mem have "g p0 \<in> set discovered" unfolding sd by (rule imageI)
  then have "fst (g p0) \<in> fst ` set discovered" by (rule imageI)
  moreover have "parse_month_from_partition_dir (path_parent p0) = Inr m"
    unfolding p0_def by (rule raw_month_of_path [OF ns])
  then have "fst (g p0) = m" by (simp add: g_def)
  ultimately show "m \<in> fst ` set discovered" by simp
qed

lemma curated_step_outcome:
  assumes "curated_step e root (month, rp) v = Inr v'"
  shows "set (outcome_months v') = insert month (set (outcome_months v))"
    and "length (outcome_months v') = Suc (length (outcome_months v))"
    and "\<forall>k. k \<noteq> month \<longrightarrow> map_of (state_records v') k = map_of (state_records v) k"
  using assms
  by (cases rule: curated_step_cases;
      simp add: outcome_months_def item_report_month_def json_get_def update_conv')+

lemma curated_loop_outcome:
  assumes "curated_loop e root ps v = (None, v')"
  shows "set (outcome_months v') = set (outcome_months v) \<union> fst ` set ps \<and>
         length (outcome_months v') = length (outcome_months v) + length ps \<and>
         (\<forall>k. k \<notin> fst ` set ps \<longrightarrow> map_of (state_records v') k = map_of (state_records v) k)"
  using assms
proof (induction ps arbitrary: v)
  case Nil
  then show ?case by simp
next
  case (Cons part ps)
  obtain month rp where part: "part = (month, rp)" by (cases part)
  from Cons.prems obtain w where step: "curated_step e root (month, rp) v = Inr w"
    and rest: "curated_loop e root ps w = (None, v')"
    unfolding part by (auto split: sum.splits)
  note o = curated_step_outcome [OF step]
  from Cons.IH [OF rest] o show ?case unfolding part by auto
qed

lemma run_curated_build_outcome:
  assumes run: "run_curated_build e fs root sel sp = Inr s"
    and disc: "discover_raw_partitions e fs root = Inr (discovered, sk)"
  shows "distinct (outcome_months (vars s))"
    and "set (outcome_months (vars s)) =
           (case sel of None \<Rightarrow> fst ` set discovered
            | Some ms \<Rightarrow> fst ` set discovered \<inter> set ms)"
    and "discovered_count s = length (outcome_months (vars s))"
    and "\<exists>st. curated_load_state fs (effective_state_path root sp) = Inr st \<and>
           (\<forall>k. k \<notin> set (outcome_months (vars s)) \<longrightarrow>
              map_of (state_records (vars s)) k = map_of (months st) k)"
proof -
  define rm where "rm = (case sel of None \<Rightarrow> discovered
              | Some ms \<Rightarrow> filter (\<lambda>(month, rp). month \<in> set ms) discovered)"
  from run disc obtain st where st: "curated_load_state fs (effective_state_path root sp) = Inr st"
    and loop: "curated_loop e root (sort_key fst rm)
                 \<lparr>fs_now = fs, state_records = months st, processed = [],
                  unchanged = [], failed = []\<rparr> = (None, vars s)"
    and dc: "discovered_count s = length rm"
    unfolding rm_def
    by (auto simp: run_curated_build_def Let_def split: sum.splits prod.splits option.splits)
  note o = curated_loop_outcome [OF loop]
  have init: "outcome_months \<lparr>fs_now = fs, state_records = months st, processed = [],
                  unchanged = [], failed = []\<rparr> = []"
    by (simp add: outcome_months_def)
  from o have S: "set (outcome_months (vars s)) = fst ` set rm"
    and L: "length (outcome_months (vars s)) = length rm"
    and K: "\<forall>k. k \<notin> fst ` set rm \<longrightarrow>
              map_of (state_records (vars s)) k = map_of (months st) k"
    unfolding init by simp_all
  have d: "distinct (map fst discovered)"
    by (rule discover_raw_partitions_distinct_months [OF disc])
  then have drm: "distinct (map fst rm)"
    unfolding rm_def by (cases sel) (simp_all add: distinct_map_filter)
  then have "card (fst ` set rm) = length rm"
    by (metis distinct_card length_map set_map)
  with S L have "card (set (outcome_months (vars s))) = length (outcome_months (vars s))"
    by simp
  then show "distinct (outcome_months (vars s))" by (rule card_distinct)
  show "set (outcome_months (vars s)) =
           (case sel of None \<Rightarrow> fst ` set discovered
            | Some ms \<Rightarrow> fst ` set discovered \<inter> set ms)"
    unfolding S rm_def by (cases sel) (auto simp: image_iff)
  show "discovered_count s = length (outcome_months (vars s))" using dc L by simp
  from st K S show "\<exists>st. curated_load_state fs (effective_state_path root sp) = Inr st \<and>
           (\<forall>k. k \<notin> set (outcome_months (vars s)) \<longrightarrow>
              map_of (state_records (vars s)) k = map_of (months st) k)"
    by auto
qed

text \<open>
  C9, as the code has it. The month filter of the chained curated build is the sorted
  list of the months the raw stage newly processed when there is one, and no filter when
  the raw stage processed nothing. The loop of \<^verbatim>\<open>run_curated_build\<close> goes through the
  discovered raw partitions whose month is in the filter, and through all of them
  without a filter: each of these months ends in exactly one of the lists
  \<^verbatim>\<open>processed\<close>, \<^verbatim>\<open>unchanged\<close>, \<^verbatim>\<open>failed\<close>, no other month does, and the
  state record of every other month stays as loaded. So in a chained run that newly
  processed some month, the curated build goes through exactly the months newly
  processed; in a chained run that processed nothing it goes through every raw partition.
\<close>

theorem curated_month_filter:
  "months_for_curated pm = (if pm = [] then None else Some pm) \<and>
   (main e fs a = Inr r \<and> build_curated a \<longrightarrow>
      processed_months r =
        sort (remdups (map item_report_month (processed (vars (ingest r))))) \<and>
      (\<exists>s. ingest_stage e fs a = Inr s \<and> vars s = vars (ingest r) \<and>
         curated_run r =
           Some (run_curated_build e (fs_end s) (arg_output_root a)
                   (months_for_curated (processed_months r)) None))) \<and>
   (run_curated_build e fs root sel sp = Inr s \<and>
    discover_raw_partitions e fs root = Inr (discovered, sk) \<longrightarrow>
      distinct (outcome_months (vars s)) \<and>
      set (outcome_months (vars s)) =
        (case sel of None \<Rightarrow> fst ` set discovered
         | Some ms \<Rightarrow> fst ` set discovered \<inter> set ms) \<and>
      discovered_count s = length (outcome_months (vars s)) \<and>
      (\<exists>st. curated_load_state fs (effective_state_path root sp) = Inr st \<and>
         (\<forall>k. k \<notin> set (outcome_months (vars s)) \<longrightarrow>
            map_of (state_records (vars s)) k = map_of (months st) k))) \<and>
   (main e fs a = Inr r \<and> build_curated a \<and> processed (vars (ingest r)) \<noteq> [] \<and>
    curated_run r = Some (Inr c) \<longrightarrow>
      distinct (outcome_months (vars c)) \<and>
      set (outcome_months (vars c)) = item_report_month ` set (processed (vars (ingest r)))) \<and>
   (main e fs a = Inr r \<and> build_curated a \<and> processed (vars (ingest r)) = [] \<and>
    curated_run r = Some (Inr c) \<longrightarrow>
      (\<exists>s discovered sk. ingest_stage e fs a = Inr s \<and>
         discover_raw_partitions e (fs_end s) (arg_output_root a) = Inr (discovered, sk) \<and>
         distinct (outcome_months (vars c)) \<and>
         set (outcome_months (vars c)) = fst ` set discovered))"
proof -
  have A: "months_for_curated pm = (if pm = [] then None else Some pm)"
    by (simp add: months_for_curated_def)
  have B: "main e fs a = Inr r \<and> build_curated a \<longrightarrow>
      processed_months r =
        sort (remdups (map item_report_month (processed (vars (ingest r))))) \<and>
      (\<exists>s. ingest_stage e fs a = Inr s \<and> vars s = vars (ingest r) \<and>
         curated_run r =
           Some (run_curated_build e (fs_end s) (arg_output_root a)
                   (months_for_curated (processed_months r)) None))"
  proof
    assume "main e fs a = Inr r \<and> build_curated a"
    then have m: "main e fs a = Inr r" and b: "build_curated a" by simp_all
    from m obtain s0 where st: "ingest_stage e fs a = Inr s0" and s0: "vars (ingest r) = vars s0"
      "processed_months r = sort (remdups (map item_report_month (processed (vars s0))))"
      "curated_run r =
           (if build_curated a then
              Some (run_curated_build e (fs_end s0) (arg_output_root a)
                      (months_for_curated (processed_months r)) None)
            else None)"
      by (rule main_Inr)
    from st s0 b show "processed_months r =
        sort (remdups (map item_report_month (processed (vars (ingest r))))) \<and>
      (\<exists>s. ingest_stage e fs a = Inr s \<and> vars s = vars (ingest r) \<and>
         curated_run r =
           Some (run_curated_build e (fs_end s) (arg_output_root a)
                   (months_for_curated (processed_months r)) None))"
      by auto
  qed
  have C: "run_curated_build e fs root sel sp = Inr s \<and>
    discover_raw_partitions e fs root = Inr (discovered, sk) \<longrightarrow>
      distinct (outcome_months (vars s)) \<and>
      set (outcome_months (vars s)) =
        (case sel of None \<Rightarrow> fst ` set discovered
         | Some ms \<Rightarrow> fst ` set discovered \<inter> set ms) \<and>
      discovered_count s = length (outcome_months (vars s)) \<and>
      (\<exists>st. curated_load_state fs (effective_state_path root sp) = Inr st \<and>
         (\<forall>k. k \<notin> set (outcome_months (vars s)) \<longrightarrow>
            map_of (state_records (vars s)) k = map_of (months st) k))"
  proof
    assume "run_curated_build e fs root sel sp = Inr s \<and>
      discover_raw_partitions e fs root = Inr (discovered, sk)"
    then have run: "run_curated_build e fs root sel sp = Inr s"
      and disc: "discover_raw_partitions e fs root = Inr (discovered, sk)" by simp_all
    show "distinct (outcome_months (vars s)) \<and>
      set (outcome_months (vars s)) =
        (case sel of None \<Rightarrow> fst ` set discovered
         | Some ms \<Rightarrow> fst ` set discovered \<inter> set ms) \<and>
      discovered_count s = length (outcome_months (vars s)) \<and>
      (\<exists>st. curated_load_state fs (effective_state_path root sp) = Inr st \<and>
         (\<forall>k. k \<notin> set (outcome_months (vars s)) \<longrightarrow>
            map_of (state_records (vars s)) k = map_of (months st) k))"
      by (intro conjI) (rule run_curated_build_outcome [OF run disc])+
  qed
  have D: "main e fs a = Inr r \<and> build_curated a \<and> processed (vars (ingest r)) \<noteq> [] \<and>
    curated_run r = Some (Inr c) \<longrightarrow>
      distinct (outcome_months (vars c)) \<and>
      set (outcome_months (vars c)) = item_report_month ` set (processed (vars (ingest r)))"
  proof
    assume "main e fs a = Inr r \<and> build_curated a \<and> processed (vars (ingest r)) \<noteq> [] \<and>
      curated_run r = Some (Inr c)"
    then have m: "main e fs a = Inr r" and b: "build_curated a"
      and ne: "processed (vars (ingest r)) \<noteq> []" and cr: "curated_run r = Some (Inr c)"
      by simp_all
    from m obtain s0 where st: "ingest_stage e fs a = Inr s0"
      and vs: "vars (ingest r) = vars s0"
      and pm: "processed_months r = sort (remdups (map item_report_month (processed (vars s0))))"
      and cur: "curated_run r =
           (if build_curated a then
              Some (run_curated_build e (fs_end s0) (arg_output_root a)
                      (months_for_curated (processed_months r)) None)
            else None)"
      by (rule main_Inr)
    have "set (processed_months r) = item_report_month ` set (processed (vars s0))"
      unfolding pm by simp
    with ne vs have "set (processed_months r) \<noteq> {}" by simp
    then have "processed_months r \<noteq> []" by auto
    with cur b cr have run: "run_curated_build e (fs_end s0) (arg_output_root a)
        (Some (processed_months r)) None = Inr c"
      by (simp add: months_for_curated_def)
    obtain discovered' sk' where
      disc: "discover_raw_partitions e (fs_end s0) (arg_output_root a) = Inr (discovered', sk')"
      by (simp add: discover_raw_partitions_closed)
    note o = run_curated_build_outcome [OF run disc]
    from processed_months_discovered [OF st disc] pm
    have "set (processed_months r) \<subseteq> fst ` set discovered'" by simp
    with o(2) have "set (outcome_months (vars c)) = set (processed_months r)" by auto
    also have "\<dots> = item_report_month ` set (processed (vars (ingest r)))"
      unfolding pm vs by simp
    finally show "distinct (outcome_months (vars c)) \<and>
      set (outcome_months (vars c)) = item_report_month ` set (processed (vars (ingest r)))"
      using o(1) by simp
  qed
  have E: "main e fs a = Inr r \<and> build_curated a \<and> processed (vars (ingest r)) = [] \<and>
    curated_run r = Some (Inr c) \<longrightarrow>
      (\<exists>s discovered sk. ingest_stage e fs a = Inr s \<and>
         discover_raw_partitions e (fs_end s) (arg_output_root a) = Inr (discovered, sk) \<and>
         distinct (outcome_months (vars c)) \<and>
         set (outcome_months (vars c)) = fst ` set discovered)"
  proof
    assume "main e fs a = Inr r \<and> build_curated a \<and> processed (vars (ingest r)) = [] \<and>
      curated_run r = Some (Inr c)"
    then have m: "main e fs a = Inr r" and b: "build_curated a"
      and em: "processed (vars (ingest r)) = []" and cr: "curated_run r = Some (Inr c)"
      by simp_all
    from m obtain s0 where st: "ingest_stage e fs a = Inr s0"
      and vs: "vars (ingest r) = vars s0"
      and pm: "processed_months r = sort (remdups (map item_report_month (processed (vars s0))))"
      and cur: "curated_run r =
           (if build_curated a then
              Some (run_curated_build e (fs_end s0) (arg_output_root a)
                      (months_for_curated (processed_months r)) None)
            else None)"
      by (rule main_Inr)
    from em vs have "processed_months r = []" unfolding pm by simp
    with cur b cr have run: "run_curated_build e (fs_end s0) (arg_output_root a) None None = Inr c"
      by (simp add: months_for_curated_def)
    obtain discovered' sk' where
      disc: "discover_raw_partitions e (fs_end s0) (arg_output_root a) = Inr (discovered', sk')"
      by (simp add: discover_raw_partitions_closed)
    note o = run_curated_build_outcome [OF run disc]
    from st disc o(1) o(2) show "\<exists>s discovered sk. ingest_stage e fs a = Inr s \<and>
         discover_raw_partitions e (fs_end s) (arg_output_root a) = Inr (discovered, sk) \<and>
         distinct (outcome_months (vars c)) \<and>
         set (outcome_months (vars c)) = fst ` set discovered"
      by auto
  qed
  from A B C D E show ?thesis by (intro conjI)
qed

lemma main_jan_feb:
  "(case main demo_env fs_jan_feb pipeline_args of
      Inl x \<Rightarrow> False
    | Inr r \<Rightarrow>
        map item_report_month (processed (vars (ingest r))) = [''2024-02''] \<and>
        map item_report_month (unchanged (vars (ingest r))) = [''2024-01''] \<and>
        processed_months r = [''2024-02''] \<and>
        (case curated_run r of
           Some (Inr c) \<Rightarrow> outcome_months (vars c) = [''2024-02'']
         | _ \<Rightarrow> False))"
  by code_simp

lemma raw_partitions_jan_feb:
  "(case ingest_stage demo_env fs_jan_feb pipeline_args of
      Inl x \<Rightarrow> False
    | Inr s \<Rightarrow>
        (case discover_raw_partitions demo_env (fs_end s) ''out'' of
           Inl x \<Rightarrow> False
         | Inr (discovered, sk) \<Rightarrow> map fst discovered = [''2024-01'', ''2024-02'']))"
  by code_simp

theorem curated_month_filter_witness:
  "(case main demo_env fs_jan_feb pipeline_args of
      Inl x \<Rightarrow> False
    | Inr r \<Rightarrow>
        build_curated pipeline_args \<and> processed (vars (ingest r)) \<noteq> [] \<and>
        map item_report_month (processed (vars (ingest r))) = [''2024-02''] \<and>
        map item_report_month (unchanged (vars (ingest r))) = [''2024-01''] \<and>
        processed_months r = [''2024-02''] \<and>
        (case curated_run r of
           Some (Inr c) \<Rightarrow>
             distinct (outcome_months (vars c)) \<and>
             set (outcome_months (vars c)) =
               item_report_month ` set (processed (vars (ingest r))) \<and>
             outcome_months (vars c) = [''2024-02'']
         | _ \<Rightarrow> False)) \<and>
   (case ingest_stage demo_env fs_jan_feb pipeline_args of
      Inl x \<Rightarrow> False
    | Inr s \<Rightarrow>
        (case discover_raw_partitions demo_env (fs_end s) ''out'' of
           Inl x \<Rightarrow> False
         | Inr (discovered, sk) \<Rightarrow> map fst discovered = [''2024-01'', ''2024-02'']))"
proof -
  note ev = main_jan_feb
  then obtain r where r: "main demo_env fs_jan_feb pipeline_args = Inr r"
    by (cases "main demo_env fs_jan_feb pipeline_args") simp_all
  with ev have p: "map item_report_month (processed (vars (ingest r))) = [''2024-02'']"
    and u: "map item_report_month (unchanged (vars (ingest r))) = [''2024-01'']"
    and pm: "processed_months r = [''2024-02'']"
    and cc: "(case curated_run r of
           Some (Inr c) \<Rightarrow> outcome_months (vars c) = [''2024-02'']
         | _ \<Rightarrow> False)"
    by simp_all
  from cc obtain c where c: "curated_run r = Some (Inr c)"
    and oc: "outcome_months (vars c) = [''2024-02'']"
    by (auto split: option.splits sum.splits)
  have b: "build_curated pipeline_args"
    by (simp add: pipeline_args_def)
  from p have ne: "processed (vars (ingest r)) \<noteq> []" by auto
  note inst = curated_month_filter
      [where e = demo_env and fs = fs_jan_feb and a = pipeline_args and r = r and c = c]
  from inst r b ne c have d: "distinct (outcome_months (vars c)) \<and>
      set (outcome_months (vars c)) = item_report_month ` set (processed (vars (ingest r)))"
    by blast
  have "(case Inr r of
      Inl x \<Rightarrow> False
    | Inr r \<Rightarrow>
        build_curated pipeline_args \<and> processed (vars (ingest r)) \<noteq> [] \<and>
        map item_report_month (processed (vars (ingest r))) = [''2024-02''] \<and>
        map item_report_month (unchanged (vars (ingest r))) = [''2024-01''] \<and>
        processed_months r = [''2024-02''] \<and>
        (case curated_run r of
           Some (Inr c) \<Rightarrow>
             distinct (outcome_months (vars c)) \<and>
             set (outcome_months (vars c)) =
               item_report_month ` set (processed (vars (ingest r))) \<and>
             outcome_months (vars c) = [''2024-02'']
         | _ \<Rightarrow> False))"
    using b ne p u pm c d oc by simp
  then have first: "(case main demo_env fs_jan_feb pipeline_args of
      Inl x \<Rightarrow> False
    | Inr r \<Rightarrow>
        build_curated pipeline_args \<and> processed (vars (ingest r)) \<noteq> [] \<and>
        map item_report_month (processed (vars (ingest r))) = [''2024-02''] \<and>
        map item_report_month (unchanged (vars (ingest r))) = [''2024-01''] \<and>
        processed_months r = [''2024-02''] \<and>
        (case curated_run r of
           Some (Inr c) \<Rightarrow>
             distinct (outcome_months (vars c)) \<and>
             set (outcome_months (vars c)) =
               item_report_month ` set (processed (vars (ingest r))) \<and>
             outcome_months (vars c) = [''2024-02'']
         | _ \<Rightarrow> False))"
    unfolding r .
  from first raw_partitions_jan_feb show ?thesis by (rule conjI)
qed

text \<open>
  C9 as stated fails when the raw stage processes nothing: the chained curated build
  then gets no filter and goes through every raw partition. Here the January workbook
  had been ingested before; the chained run ingests nothing, and its curated build
  processes January.
\<close>

theorem curated_processes_all_when_nothing_processed:
  "(case main demo_env fs_jan_ingested pipeline_args of
      Inl x \<Rightarrow> False
    | Inr r \<Rightarrow>
        processed (vars (ingest r)) = [] \<and> processed_months r = [] \<and>
        (case curated_run r of
           Some (Inr c) \<Rightarrow>
             map item_report_month (processed (vars c)) = [''2024-01''] \<and>
             outcome_months (vars c) = [''2024-01'']
         | _ \<Rightarrow> False))"
  by code_simp

subsection \<open>One record per state key\<close>

lemma update_member:
  "x \<in> set (AList.update k v al) \<Longrightarrow> x = (k, v) \<or> x \<in> set al"
  by (induction al) (auto split: if_splits)

lemma fold_update_distinct:
  "distinct (map fst acc) \<Longrightarrow>
     distinct (map fst (fold (\<lambda>(k, v) d. AList.update k v d) ps acc))"
  by (induction ps arbitrary: acc) (auto simp: distinct_update)

lemma fold_update_member:
  "x \<in> set (fold (\<lambda>(k, v) d. AList.update k v d) ps acc) \<Longrightarrow> x \<in> set acc \<or> x \<in> set ps"
proof (induction ps arbitrary: acc)
  case Nil
  then show ?case by simp
next
  case (Cons p ps)
  obtain k v where p: "p = (k, v)" by (cases p)
  from Cons.prems have "x \<in> set (fold (\<lambda>(k, v) d. AList.update k v d) ps (AList.update k v acc))"
    unfolding p by simp
  from Cons.IH [OF this] have "x \<in> set (AList.update k v acc) \<or> x \<in> set ps" .
  then show ?case using update_member [of x k v acc] p by auto
qed

lemma dict_of_pairs_distinct: "distinct (map fst (dict_of_pairs ps))"
  unfolding dict_of_pairs_def by (rule fold_update_distinct) simp

lemma dict_of_pairs_member: "x \<in> set (dict_of_pairs ps) \<Longrightarrow> x \<in> set ps"
  unfolding dict_of_pairs_def using fold_update_member [of x ps "[]"] by simp

lemma json_decode_dict_distinct: "json_decode x = JDict fl \<Longrightarrow> distinct (map fst fl)"
  by (cases x) (auto simp: dict_of_pairs_distinct)

lemma json_loads_records_distinct:
  assumes "json_loads c = Inr (JDict payload)" and "dict_get payload k (JDict []) = JDict fl"
  shows "distinct (map fst fl)"
proof (cases "map_of payload k")
  case None
  with assms(2) show ?thesis by (simp add: dict_get_def)
next
  case (Some y)
  with assms(2) have y: "y = JDict fl" by (simp add: dict_get_def)
  from Some have mem: "(k, y) \<in> set payload" by (rule map_of_SomeD)
  from assms(1) obtain v where "json_decode v = JDict payload"
    by (cases c) (auto simp: json_loads_def)
  then obtain ps where "payload = dict_of_pairs (map (map_prod id json_decode) ps)"
    by (cases v) auto
  with mem have "(k, y) \<in> set (map (map_prod id json_decode) ps)"
    using dict_of_pairs_member by blast
  then obtain z where "y = json_decode z" by auto
  with y show ?thesis using json_decode_dict_distinct [of z fl] by simp
qed

lemma load_state_distinct:
  assumes "load_state fs p = Inr st" shows "distinct (map fst (files st))"
proof (cases "path_exists fs p")
  case False
  with assms show ?thesis by (auto simp: load_state_def)
next
  case True
  with assms show ?thesis
    by (auto simp: load_state_def split: option.splits sum.splits json.splits
        intro: json_loads_records_distinct)
qed

lemma curated_load_state_distinct:
  assumes "curated_load_state fs p = Inr st" shows "distinct (map fst (months st))"
proof (cases "path_exists fs p")
  case False
  with assms show ?thesis by (auto simp: curated_load_state_def)
next
  case True
  with assms show ?thesis
    by (auto simp: curated_load_state_def split: option.splits sum.splits json.splits
        intro: json_loads_records_distinct)
qed

lemma ingest_stage_records:
  assumes "ingest_stage e fs a = Inr s"
  shows "distinct (map fst (state_records (vars s))) \<and>
     (\<exists>st. load_state fs (main_state_path a) = Inr st \<and>
        map_of (fs_end s) (main_state_path a) =
          Some \<lparr>content = Json (JDict [(''schema_id'', schema_id st),
                                       (''updated_at'', JStr (utc_now_iso e)),
                                       (''files'', JDict (state_records (vars s)))]),
               st_mtime = time_now e\<rparr>)"
proof -
  from assms obtain st cs sk where st: "load_state fs (main_state_path a) = Inr st"
    and loop: "ingest_loop e (arg_output_root a) (\<not> allow_header_mismatch a) cs
           \<lparr>fs_now = fs, state_records = files st, processed = [], unchanged = [],
            failed = []\<rparr> = (None, vars s)"
    and fe: "fs_end s = fst (save_state e (fs_now (vars s)) (main_state_path a)
                           (st\<lparr>files := state_records (vars s)\<rparr>))"
    by (rule ingest_stage_Inr)
  have d: "distinct (map fst (state_records (vars s)))"
    by (rule ingest_loop_distinct [OF loop]) (simp add: load_state_distinct [OF st])
  have "map_of (fs_end s) (main_state_path a) =
          Some \<lparr>content = Json (JDict [(''schema_id'', schema_id st),
                                       (''updated_at'', JStr (utc_now_iso e)),
                                       (''files'', JDict (state_records (vars s)))]),
               st_mtime = time_now e\<rparr>"
    unfolding fe by (simp add: save_state_def Let_def state_document_def map_of_write_file_same)
  with d st show ?thesis by blast
qed

lemma run_curated_build_records:
  assumes "run_curated_build e fs root sel sp = Inr s"
  shows "distinct (map fst (state_records (vars s)))"
proof -
  from assms obtain st ps where st: "curated_load_state fs (effective_state_path root sp) = Inr st"
    and loop: "curated_loop e root ps
                 \<lparr>fs_now = fs, state_records = months st, processed = [],
                  unchanged = [], failed = []\<rparr> = (None, vars s)"
    by (auto simp: run_curated_build_def Let_def split: sum.splits prod.splits option.splits)
  show ?thesis
    by (rule curated_loop_distinct [OF loop]) (simp add: curated_load_state_distinct [OF st])
qed

lemma ingest_step_other_record:
  assumes step: "ingest_step e root strict fi v = Inr v'"
    and ch: "processed v' \<noteq> processed v"
    and k: "k \<noteq> normalize_state_path_key e (path fi)"
    and r0: "map_of (state_records v) k = Some rec0"
  shows "map_of (state_records v') k = Some rec0 \<and>
     (\<exists>m rec. parse_report_month e (path fi) = Inr m \<and>
        map_of (state_records v') (normalize_state_path_key e (path fi)) = Some rec \<and>
        json_get rec ''report_month'' JNull = Inr (JStr m))"
  using step
proof (cases rule: ingest_step_cases)
  case (unchanged checksum)
  with ch show ?thesis by simp
next
  case (failed checksum err)
  with ch show ?thesis by simp
next
  case (processed checksum table m totals)
  from processed(2) have pm: "parse_report_month e (path fi) = Inr m"
    by (rule ingest_workbook_month)
  have a: "map_of (state_records v') k = Some rec0"
    unfolding processed(3) using k r0 by (simp add: update_conv')
  have "\<exists>rec. map_of (state_records v') (normalize_state_path_key e (path fi)) = Some rec \<and>
        json_get rec ''report_month'' JNull = Inr (JStr m)"
    unfolding processed(3) by (simp add: update_conv' json_get_def)
  with a pm show ?thesis by blast
qed

text \<open>
  C7, as the code has it. The records of a state are keyed by the state key: the
  lower-cased source path in the raw stage, the month in the curated stage. The state
  that \<^verbatim>\<open>load_state\<close> returns has one record per key, and so has the state at the
  end of either stage, which the raw stage writes to the state file. A pass of either
  loop keeps the keys distinct; it leaves every record under another key as it was;
  when it processes its partition it leaves exactly one record under the key, holding the
  checksum just computed and the output paths just written, and otherwise it leaves the
  records alone. In the raw stage the record of a month under another state key stays
  when a file of that month is processed: the month then has a record under each key.
\<close>

theorem state_record_upsert:
  "(load_state fs p = Inr st \<longrightarrow> distinct (map fst (files st))) \<and>
   (curated_load_state fs p = Inr cst \<longrightarrow> distinct (map fst (months cst))) \<and>
   (ingest_stage e fs a = Inr s \<longrightarrow>
      distinct (map fst (state_records (vars s))) \<and>
      (\<exists>st0. load_state fs (main_state_path a) = Inr st0 \<and>
         map_of (fs_end s) (main_state_path a) =
           Some \<lparr>content = Json (JDict [(''schema_id'', schema_id st0),
                                        (''updated_at'', JStr (utc_now_iso e)),
                                        (''files'', JDict (state_records (vars s)))]),
                st_mtime = time_now e\<rparr>)) \<and>
   (run_curated_build e fs root sel sp = Inr cs \<longrightarrow>
      distinct (map fst (state_records (vars cs)))) \<and>
   (distinct (map fst (state_records v)) \<and> ingest_step e root strict fi v = Inr v' \<longrightarrow>
      distinct (map fst (state_records v')) \<and>
      (\<forall>k. k \<noteq> normalize_state_path_key e (path fi) \<longrightarrow>
           map_of (state_records v') k = map_of (state_records v) k) \<and>
      (processed v' = processed v \<longrightarrow> state_records v' = state_records v) \<and>
      (processed v' \<noteq> processed v \<longrightarrow>
         (\<exists>checksum table m totals rec.
            file_sha256 e (fs_now v) (path fi) = Inr checksum \<and>
            ingest_workbook e (fs_now v) (path fi) strict = Inr (table, m, totals) \<and>
            filter (\<lambda>x. fst x = normalize_state_path_key e (path fi)) (state_records v') =
              [(normalize_state_path_key e (path fi), rec)] \<and>
            json_get rec ''sha256'' JNull = Inr (JStr checksum) \<and>
            json_get rec ''report_month'' JNull = Inr (JStr m) \<and>
            json_get rec ''parquet_path'' JNull = Inr (JStr (raw_parquet_path root m)) \<and>
            json_get rec ''ingest_report_path'' JNull =
              Inr (JStr (ingest_report_path root m))))) \<and>
   (distinct (map fst (state_records w)) \<and> curated_step e root (month, rp) w = Inr w' \<longrightarrow>
      distinct (map fst (state_records w')) \<and>
      (\<forall>k. k \<noteq> month \<longrightarrow> map_of (state_records w') k = map_of (state_records w) k) \<and>
      (processed w' = processed w \<longrightarrow> state_records w' = state_records w) \<and>
      (processed w' \<noteq> processed w \<longrightarrow>
         (\<exists>raw_checksum rec.
            file_sha256 e (fs_now w) rp = Inr raw_checksum \<and>
            filter (\<lambda>x. fst x = month) (state_records w') = [(month, rec)] \<and>
            json_get rec ''raw_sha256'' JNull = Inr (JStr raw_checksum) \<and>
            json_get rec ''raw_parquet_path'' JNull = Inr (JStr rp) \<and>
            json_get rec ''curated_parquet_path'' JNull =
              Inr (JStr (curated_parquet_path root month)) \<and>
            json_get rec ''curated_report_path'' JNull =
              Inr (JStr (curated_report_path root month))))) \<and>
   (ingest_step e root strict fi v = Inr v' \<and> processed v' \<noteq> processed v \<and>
    k0 \<noteq> normalize_state_path_key e (path fi) \<and> map_of (state_records v) k0 = Some rec0 \<longrightarrow>
      map_of (state_records v') k0 = Some rec0 \<and>
      (\<exists>m rec. parse_report_month e (path fi) = Inr m \<and>
         map_of (state_records v') (normalize_state_path_key e (path fi)) = Some rec \<and>
         json_get rec ''report_month'' JNull = Inr (JStr m)))"
proof (intro conjI)
  show "load_state fs p = Inr st \<longrightarrow> distinct (map fst (files st))"
    by (rule impI) (rule load_state_distinct)
  show "curated_load_state fs p = Inr cst \<longrightarrow> distinct (map fst (months cst))"
    by (rule impI) (rule curated_load_state_distinct)
  show "ingest_stage e fs a = Inr s \<longrightarrow>
      distinct (map fst (state_records (vars s))) \<and>
      (\<exists>st0. load_state fs (main_state_path a) = Inr st0 \<and>
         map_of (fs_end s) (main_state_path a) =
           Some \<lparr>content = Json (JDict [(''schema_id'', schema_id st0),
                                        (''updated_at'', JStr (utc_now_iso e)),
                                        (''files'', JDict (state_records (vars s)))]),
                st_mtime = time_now e\<rparr>)"
    by (rule impI) (rule ingest_stage_records)
  show "run_curated_build e fs root sel sp = Inr cs \<longrightarrow>
      distinct (map fst (state_records (vars cs)))"
    by (rule impI) (rule run_curated_build_records)
  show "distinct (map fst (state_records v)) \<and> ingest_step e root strict fi v = Inr v' \<longrightarrow>
      distinct (map fst (state_records v')) \<and>
      (\<forall>k. k \<noteq> normalize_state_path_key e (path fi) \<longrightarrow>
           map_of (state_records v') k = map_of (state_records v) k) \<and>
      (processed v' = processed v \<longrightarrow> state_records v' = state_records v) \<and>
      (processed v' \<noteq> processed v \<longrightarrow>
         (\<exists>checksum table m totals rec.
            file_sha256 e (fs_now v) (path fi) = Inr checksum \<and>
            ingest_workbook e (fs_now v) (path fi) strict = Inr (table, m, totals) \<and>
            filter (\<lambda>x. fst x = normalize_state_path_key e (path fi)) (state_records v') =
              [(normalize_state_path_key e (path fi), rec)] \<and>
            json_get rec ''sha256'' JNull = Inr (JStr checksum) \<and>
            json_get rec ''report_month'' JNull = Inr (JStr m) \<and>
            json_get rec ''parquet_path'' JNull = Inr (JStr (raw_parquet_path root m)) \<and>
            json_get rec ''ingest_report_path'' JNull =
              Inr (JStr (ingest_report_path root m))))"
    by (rule impI, erule conjE, rule ingest_step_upsert)
  show "distinct (map fst (state_records w)) \<and> curated_step e root (month, rp) w = Inr w' \<longrightarrow>
      distinct (map fst (state_records w')) \<and>
      (\<forall>k. k \<noteq> month \<longrightarrow> map_of (state_records w') k = map_of (state_records w) k) \<and>
      (processed w' = processed w \<longrightarrow> state_records w' = state_records w) \<and>
      (processed w' \<noteq> processed w \<longrightarrow>
         (\<exists>raw_checksum rec.
            file_sha256 e (fs_now w) rp = Inr raw_checksum \<and>
            filter (\<lambda>x. fst x = month) (state_records w') = [(month, rec)] \<and>
            json_get rec ''raw_sha256'' JNull = Inr (JStr raw_checksum) \<and>
            json_get rec ''raw_parquet_path'' JNull = Inr (JStr rp) \<and>
            json_get rec ''curated_parquet_path'' JNull =
              Inr (JStr (curated_parquet_path root month)) \<and>
            json_get rec ''curated_report_path'' JNull =
              Inr (JStr (curated_report_path root month))))"
    by (rule impI, erule conjE, rule curated_step_upsert)
  show "ingest_step e root strict fi v = Inr v' \<and> processed v' \<noteq> processed v \<and>
    k0 \<noteq> normalize_state_path_key e (path fi) \<and> map_of (state_records v) k0 = Some rec0 \<longrightarrow>
      map_of (state_records v') k0 = Some rec0 \<and>
      (\<exists>m rec. parse_report_month e (path fi) = Inr m \<and>
         map_of (state_records v') (normalize_state_path_key e (path fi)) = Some rec \<and>
         json_get rec ''report_month'' JNull = Inr (JStr m))"
    by (rule impI, elim conjE, rule ingest_step_other_record)
qed

lemma jan_modified_facts:
  "map (\<lambda>(k, v). (k, json_get v ''sha256'' JNull)) (state_records jan_modified_vars) =
     [(''in/s_2024-01.xlsx'', Inr (JStr ''a''))]"
  "(case ingest_step demo_env ''out'' True jan_modified_candidate jan_modified_vars of
      Inl x \<Rightarrow> False
    | Inr v' \<Rightarrow> processed v' \<noteq> processed jan_modified_vars \<and> length (state_records v') = 1)"
  "normalize_state_path_key demo_env (path jan_modified_candidate) = ''in/s_2024-01.xlsx''"
  "file_sha256 demo_env (fs_now jan_modified_vars) (path jan_modified_candidate) = Inr ''b''"
  "fst (discover_input_files demo_env fs_jan_modified ''in'') = [jan_modified_candidate]"
  by code_simp+

lemma stage_jan_upper:
  "(case ingest_stage demo_env fs_jan_upper raw_only_args of
      Inl x \<Rightarrow> False
    | Inr s \<Rightarrow>
        map (\<lambda>(k, v). (k, json_get v ''absolute_path'' JNull, json_get v ''sha256'' JNull))
          (state_records (vars s)) =
        [(''in/s_2024-01.xlsx'', Inr (JStr ''in/S_2024-01.xlsx''), Inr (JStr ''b''))])"
  by code_simp

theorem state_record_upsert_witness:
  "distinct (map fst (state_records jan_modified_vars)) \<and>
   map (\<lambda>(k, v). (k, json_get v ''sha256'' JNull)) (state_records jan_modified_vars) =
     [(''in/s_2024-01.xlsx'', Inr (JStr ''a''))] \<and>
   fst (discover_input_files demo_env fs_jan_modified ''in'') = [jan_modified_candidate] \<and>
   (case ingest_step demo_env ''out'' True jan_modified_candidate jan_modified_vars of
      Inl x \<Rightarrow> False
    | Inr v' \<Rightarrow>
        distinct (map fst (state_records v')) \<and> length (state_records v') = 1 \<and>
        (\<exists>rec. filter (\<lambda>x. fst x = ''in/s_2024-01.xlsx'') (state_records v') =
                 [(''in/s_2024-01.xlsx'', rec)] \<and>
               json_get rec ''sha256'' JNull = Inr (JStr ''b''))) \<and>
   (case ingest_stage demo_env fs_jan_upper raw_only_args of
      Inl x \<Rightarrow> False
    | Inr s \<Rightarrow>
        map (\<lambda>(k, v). (k, json_get v ''absolute_path'' JNull, json_get v ''sha256'' JNull))
          (state_records (vars s)) =
        [(''in/s_2024-01.xlsx'', Inr (JStr ''in/S_2024-01.xlsx''), Inr (JStr ''b''))])"
proof -
  obtain st where st: "load_state fs_jan_modified (main_state_path raw_only_args) = Inr st"
    and sr: "state_records jan_modified_vars = files st"
  proof (cases "load_state fs_jan_modified (main_state_path raw_only_args)")
    case (Inl err)
    then have "state_records jan_modified_vars = []" by (simp add: jan_modified_vars_def)
    with jan_modified_facts(1) show ?thesis by simp
  next
    case (Inr st)
    then have "state_records jan_modified_vars = files st" by (simp add: jan_modified_vars_def)
    with Inr that show ?thesis by blast
  qed
  note load = state_record_upsert
      [where fs = fs_jan_modified and p = "main_state_path raw_only_args" and st = st,
       THEN conjunct1, rule_format, OF st]
  have d: "distinct (map fst (state_records jan_modified_vars))"
    unfolding sr by (rule load)
  note ev = jan_modified_facts(2)
  then obtain v' where step:
      "ingest_step demo_env ''out'' True jan_modified_candidate jan_modified_vars = Inr v'"
    by (cases "ingest_step demo_env ''out'' True jan_modified_candidate jan_modified_vars")
       simp_all
  with ev have changed: "processed v' \<noteq> processed jan_modified_vars"
    and len: "length (state_records v') = 1" by simp_all
  note key = jan_modified_facts(3)
  note sha = jan_modified_facts(4)
  note inst = state_record_upsert
      [where v = jan_modified_vars and e = demo_env and root = "''out''" and strict = True
         and fi = jan_modified_candidate and v' = v',
       THEN conjunct2, THEN conjunct2, THEN conjunct2, THEN conjunct2, THEN conjunct1,
       rule_format, OF conjI, OF d step]
  from inst have d': "distinct (map fst (state_records v'))" by (rule conjunct1)
  from inst [THEN conjunct2, THEN conjunct2, THEN conjunct2, rule_format, OF changed]
  obtain checksum table m totals rec where
    c1: "file_sha256 demo_env (fs_now jan_modified_vars) (path jan_modified_candidate) =
           Inr checksum" and
    "ingest_workbook demo_env (fs_now jan_modified_vars) (path jan_modified_candidate) True =
       Inr (table, m, totals)" and
    c2: "filter (\<lambda>x. fst x = normalize_state_path_key demo_env (path jan_modified_candidate))
           (state_records v') =
       [(normalize_state_path_key demo_env (path jan_modified_candidate), rec)]" and
    c3: "json_get rec ''sha256'' JNull = Inr (JStr checksum)" and
    "json_get rec ''report_month'' JNull = Inr (JStr m)" and
    "json_get rec ''parquet_path'' JNull = Inr (JStr (raw_parquet_path ''out'' m))" and
    "json_get rec ''ingest_report_path'' JNull = Inr (JStr (ingest_report_path ''out'' m))"
    by (elim exE conjE)
  from c1 sha have cs: "checksum = ''b''" by simp
  from c2 have f: "filter (\<lambda>x. fst x = ''in/s_2024-01.xlsx'') (state_records v') =
                 [(''in/s_2024-01.xlsx'', rec)]"
    by (simp only: key)
  from c3 have g: "json_get rec ''sha256'' JNull = Inr (JStr ''b'')"
    by (simp only: cs)
  have ex: "\<exists>rec. filter (\<lambda>x. fst x = ''in/s_2024-01.xlsx'') (state_records v') =
                 [(''in/s_2024-01.xlsx'', rec)] \<and>
               json_get rec ''sha256'' JNull = Inr (JStr ''b'')"
    by (intro exI conjI) (rule f, rule g)
  have "(case Inr v' of
      Inl x \<Rightarrow> False
    | Inr v' \<Rightarrow>
        distinct (map fst (state_records v')) \<and> length (state_records v') = 1 \<and>
        (\<exists>rec. filter (\<lambda>x. fst x = ''in/s_2024-01.xlsx'') (state_records v') =
                 [(''in/s_2024-01.xlsx'', rec)] \<and>
               json_get rec ''sha256'' JNull = Inr (JStr ''b'')))"
    unfolding sum.case by (intro conjI) (rule d', rule len, rule ex)
  then have S: "(case ingest_step demo_env ''out'' True jan_modified_candidate jan_modified_vars of
      Inl x \<Rightarrow> False
    | Inr v' \<Rightarrow>
        distinct (map fst (state_records v')) \<and> length (state_records v') = 1 \<and>
        (\<exists>rec. filter (\<lambda>x. fst x = ''in/s_2024-01.xlsx'') (state_records v') =
                 [(''in/s_2024-01.xlsx'', rec)] \<and>
               json_get rec ''sha256'' JNull = Inr (JStr ''b'')))"
    unfolding step .
  show ?thesis
    by (intro conjI) (rule d, rule jan_modified_facts(1), rule jan_modified_facts(5), rule S,
        rule stage_jan_upper)
qed

text \<open>
  C7 as stated fails in the raw stage, whose key is the source path and not the month:
  after a second workbook for January has been ingested, the state holds two records
  for the month.
\<close>

theorem two_records_for_one_month:
  "(case main demo_env fs_jan_redelivered raw_only_args of
      Inl x \<Rightarrow> False
    | Inr r \<Rightarrow>
        map (\<lambda>(k, v). (k, json_get v ''report_month'' JNull))
          (state_records (vars (ingest r))) =
        [(''in/s_2024-01.xlsx'', Inr (JStr ''2024-01'')),
         (''in/t_2024-01.xlsx'', Inr (JStr ''2024-01''))])"
  by code_simp

end
